theory Spec2Isabelle
  imports Complex_Main "HOL-Library.Word"
begin

unbundle bit_operations_syntax

section \<open>scri/utilities.py: WindowKernel\<close>

text \<open>
  Samples and values are IEEE doubles in the source. The model takes them as real numbers:
  comparisons, indices and the order of the writes are those of the source, arithmetic is
  exact. Reading \<^verbatim>\<open>x[i]\<close> past the end of the array is the error \<open>IndexError\<close>, as
  in Python; compiled by numba's \<^verbatim>\<open>jit\<close> the read is not checked.
\<close>

datatype error = IndexError | ValueError | ZeroDivisionError

text \<open>
  \<^verbatim>\<open>maxexp = np.finfo(float).maxexp * np.log(2) * 0.99\<close>, where
  \<^verbatim>\<open>np.finfo(float).maxexp\<close> is 1024 for IEEE binary64: \<open>2 ^ 1024\<close> is the least power of two
  beyond the finite doubles.
\<close>

definition finfo_maxexp :: nat where
  "finfo_maxexp = 1024"

definition maxexp :: real where
  "maxexp = real finfo_maxexp * ln 2 * 0.99"

text \<open>\<^verbatim>\<open>np.empty_like(x)\<close> and \<^verbatim>\<open>np.zeros_like(x)\<close>: an array of the shape of \<open>x\<close>. The
  contents of the first are unspecified; the functions that use it take the fresh buffer
  as an argument of their worker, so that nothing depends on what it holds.\<close>

definition empty_like :: "real list \<Rightarrow> real list" where
  "empty_like x = replicate (length x) 0"

definition zeros_like :: "real list \<Rightarrow> real list" where
  "zeros_like x = replicate (length x) 0"

text \<open>The slice assignment \<^verbatim>\<open>buf[a:b] = v\<close> for \<open>0 \<le> a\<close> and \<open>0 \<le> b\<close>; a slice is clipped
  to the array.\<close>

definition slice_assign :: "'a list \<Rightarrow> nat \<Rightarrow> nat \<Rightarrow> 'a \<Rightarrow> 'a list" where
  "slice_assign buf a b v = map (\<lambda>k. if a \<le> k \<and> k < b then v else buf ! k) [0..<length buf]"

text \<open>The boundary scan \<^verbatim>\<open>while x[i] <= x0: i += 1\<close>, from index \<open>i\<close>.\<close>

function scan_le :: "real list \<Rightarrow> real \<Rightarrow> nat \<Rightarrow> error + nat" where
  "scan_le x x0 i =
     (if length x \<le> i then Inl IndexError
      else if x ! i \<le> x0 then scan_le x x0 (i + 1)
      else Inr i)"
  by pat_completeness auto
termination
  by (relation "measure (\<lambda>(x, x0, i). length x - i)") auto

text \<open>
  The filling scan \<^verbatim>\<open>while x[i] < x1: buf[i] = f(x[i]); i += 1\<close>, from index \<open>i\<close>. The source
  has this loop four times, with the bodies \<open>transition_value\<close> and \<open>derivative_value\<close>
  below.
\<close>

function fill_while_lt ::
  "(real \<Rightarrow> real) \<Rightarrow> real list \<Rightarrow> real \<Rightarrow> real list \<Rightarrow> nat \<Rightarrow> error + (real list \<times> nat)" where
  "fill_while_lt f x x1 buf i =
     (if length x \<le> i then Inl IndexError
      else if x ! i < x1 then fill_while_lt f x x1 (buf[i := f (x ! i)]) (i + 1)
      else Inr (buf, i))"
  by pat_completeness auto
termination
  by (relation "measure (\<lambda>(f, x, x1, buf, i). length x - i)") auto

text \<open>
  The body of the loop of \<^verbatim>\<open>_transition_function\<close> at the sample \<open>xi\<close>:
  \<^verbatim>\<open>tau = (x[i] - x0) / (x1 - x0); exponent = 1.0/tau - 1.0/(1.0-tau)\<close>, then \<open>y0\<close> if
  \<^verbatim>\<open>exponent >= maxexp\<close> and \<^verbatim>\<open>y0 + ydiff / (1.0 + np.exp(exponent))\<close> otherwise.
\<close>

definition exponent_of :: "real \<Rightarrow> real \<Rightarrow> real \<Rightarrow> real" where
  "exponent_of x0 x1 xi = (let tau = (xi - x0) / (x1 - x0) in 1 / tau - 1 / (1 - tau))"

definition transition_value :: "real \<Rightarrow> real \<Rightarrow> real \<Rightarrow> real \<Rightarrow> real \<Rightarrow> real" where
  "transition_value x0 x1 y0 ydiff xi =
     (let exponent = exponent_of x0 x1 xi
      in if exponent \<ge> maxexp then y0 else y0 + ydiff / (1 + exp exponent))"

text \<open>\<^verbatim>\<open>_transition_function(x, x0, x1, y0, y1)\<close>, on the fresh buffer \<open>buf\<close>.\<close>

definition transition_into ::
  "real list \<Rightarrow> real list \<Rightarrow> real \<Rightarrow> real \<Rightarrow> real \<Rightarrow> real \<Rightarrow> error + (real list \<times> nat \<times> nat)" where
  "transition_into buf x x0 x1 y0 y1 =
     (let ydiff = y1 - y0 in
      case scan_le x x0 0 of
        Inl e \<Rightarrow> Inl e
      | Inr i0 \<Rightarrow>
          (let transition = slice_assign buf 0 i0 y0 in
           case fill_while_lt (transition_value x0 x1 y0 ydiff) x x1 transition i0 of
             Inl e \<Rightarrow> Inl e
           | Inr (transition, i1) \<Rightarrow>
               Inr (slice_assign transition i1 (length transition) y1, i0, i1)))"

definition transition_function_impl ::
  "real list \<Rightarrow> real \<Rightarrow> real \<Rightarrow> real \<Rightarrow> real \<Rightarrow> error + (real list \<times> nat \<times> nat)" where
  "transition_function_impl x x0 x1 y0 y1 = transition_into (empty_like x) x x0 x1 y0 y1"

text \<open>
  \<^verbatim>\<open>transition_function(x, x0, x1, y0, y1, return_indices)\<close> returns the triple or the
  array alone.
\<close>

datatype transition_result = WithIndices "real list" nat nat | ArrayOnly "real list"

definition transition_function ::
  "real list \<Rightarrow> real \<Rightarrow> real \<Rightarrow> real \<Rightarrow> real \<Rightarrow> bool \<Rightarrow> error + transition_result" where
  "transition_function x x0 x1 y0 y1 return_indices =
     (if return_indices
      then (case transition_function_impl x x0 x1 y0 y1 of
              Inl e \<Rightarrow> Inl e | Inr (y, i0, i1) \<Rightarrow> Inr (WithIndices y i0 i1))
      else (case transition_function_impl x x0 x1 y0 y1 of
              Inl e \<Rightarrow> Inl e | Inr (y, i0, i1) \<Rightarrow> Inr (ArrayOnly y)))"

text \<open>The body of the loop of \<^verbatim>\<open>transition_function_derivative\<close>.\<close>

definition derivative_value :: "real \<Rightarrow> real \<Rightarrow> real \<Rightarrow> real \<Rightarrow> real" where
  "derivative_value x0 x1 ydiff xi =
     (let tau = (xi - x0) / (x1 - x0);
          exponent = 1 / tau - 1 / (1 - tau)
      in if exponent \<ge> maxexp then 0
         else (let exponential = exp (1 / tau - 1 / (1 - tau))
               in - ydiff * exponential * (- 1 / tau\<^sup>2 - 1 / (1 - tau)\<^sup>2) * (1 / (x1 - x0))
                  / (1 + exponential)\<^sup>2))"

definition transition_function_derivative ::
  "real list \<Rightarrow> real \<Rightarrow> real \<Rightarrow> real \<Rightarrow> real \<Rightarrow> error + real list" where
  "transition_function_derivative x x0 x1 y0 y1 =
     (let transition_prime = zeros_like x;
          ydiff = y1 - y0 in
      case scan_le x x0 0 of
        Inl e \<Rightarrow> Inl e
      | Inr i \<Rightarrow>
          (case fill_while_lt (derivative_value x0 x1 ydiff) x x1 transition_prime i of
             Inl e \<Rightarrow> Inl e
           | Inr (transition_prime, i) \<Rightarrow> Inr transition_prime))"



section \<open>scri/utilities.py: TransitionIntegrator\<close>

text \<open>
  \<^verbatim>\<open>transition_to_constant(f, t, t1, t2)\<close> receives two arrays by reference, which may be the
  same array, and writes in place into an array of its own. The model keeps the arrays in a
  store: the list of the arrays allocated so far, an address being an index into it, and a
  new array being appended.
\<close>

type_synonym addr = nat
type_synonym store = "real list list"

definition alloc :: "store \<Rightarrow> real list \<Rightarrow> store \<times> addr" where
  "alloc h a = (h @ [a], length h)"

text \<open>The elementwise product \<^verbatim>\<open>a * b\<close> of two one-dimensional arrays, a fresh array; arrays
  of different lengths do not combine (broadcasting of scalars and of arrays of length 1 is
  not modelled).\<close>

definition multiply :: "real list \<Rightarrow> real list \<Rightarrow> error + real list" where
  "multiply a b = (if length a = length b then Inr (map2 (*) a b) else Inl ValueError)"

text \<open>The slice \<^verbatim>\<open>a[i:j]\<close> for \<open>0 \<le> i\<close> and \<open>0 \<le> j\<close>.\<close>

definition slice_of :: "'a list \<Rightarrow> nat \<Rightarrow> nat \<Rightarrow> 'a list" where
  "slice_of a i j = take (j - i) (drop i a)"

text \<open>\<^verbatim>\<open>a[i:j] -= d\<close>, in place: the new contents of \<open>a\<close>; \<open>d\<close> has to have the length of the
  slice.\<close>

definition isub_slice :: "real list \<Rightarrow> nat \<Rightarrow> nat \<Rightarrow> real list \<Rightarrow> error + real list" where
  "isub_slice a i j d =
     (if length d = length (slice_of a i j)
      then Inr (map (\<lambda>k. if i \<le> k \<and> k < j then a ! k - d ! (k - i) else a ! k) [0..<length a])
      else Inl ValueError)"

text \<open>\<^verbatim>\<open>a[i - 1]\<close> for \<open>0 \<le> i\<close>: the index \<open>-1\<close> is the last element.\<close>

definition index_before :: "'a list \<Rightarrow> nat \<Rightarrow> error + 'a" where
  "index_before a i =
     (if a = [] \<or> length a < i then Inl IndexError
      else if i = 0 then Inr (last a)
      else Inr (a ! (i - 1)))"

text \<open>
  \<^verbatim>\<open>transition_to_constant(f, t, t1, t2)\<close>. The integrator \<^verbatim>\<open>quaternion.indefinite_integral\<close>
  belongs to another package: it is the parameter \<open>indefinite_integral\<close>, a function from
  the sampled values and the grid to the running integral, or to an error. The arrays that
  the two window functions return and the product \<^verbatim>\<open>f * transition\<close> are fresh; the
  temporaries \<^verbatim>\<open>f[i1:i2] * transition_dot[i1:i2]\<close> and the integral are not kept.
\<close>

definition transition_to_constant ::
  "(real list \<Rightarrow> real list \<Rightarrow> error + real list) \<Rightarrow> store \<Rightarrow> addr \<Rightarrow> addr \<Rightarrow> real \<Rightarrow> real
   \<Rightarrow> store \<times> (error + addr)" where
  "transition_to_constant indefinite_integral h f t t1 t2 =
     (case transition_function (h ! t) t1 t2 1 0 True of
        Inl e \<Rightarrow> (h, Inl e)
      | Inr (ArrayOnly y) \<Rightarrow> (h, Inl ValueError)
      | Inr (WithIndices tr i1 i2) \<Rightarrow>
          (let (h, transition) = alloc h tr in
           case transition_function_derivative (h ! t) t1 t2 1 0 of
             Inl e \<Rightarrow> (h, Inl e)
           | Inr td \<Rightarrow>
               (let (h, transition_dot) = alloc h td in
                case multiply (h ! f) (h ! transition) of
                  Inl e \<Rightarrow> (h, Inl e)
                | Inr p \<Rightarrow>
                    (let (h, f_transitioned) = alloc h p in
                     case multiply (slice_of (h ! f) i1 i2) (slice_of (h ! transition_dot) i1 i2) of
                       Inl e \<Rightarrow> (h, Inl e)
                     | Inr g \<Rightarrow>
                         (case indefinite_integral g (slice_of (h ! t) i1 i2) of
                            Inl e \<Rightarrow> (h, Inl e)
                          | Inr integral \<Rightarrow>
                              (case isub_slice (h ! f_transitioned) i1 i2 integral of
                                 Inl e \<Rightarrow> (h, Inl e)
                               | Inr a \<Rightarrow>
                                   (let h = h[f_transitioned := a] in
                                    case index_before (h ! f_transitioned) i2 of
                                      Inl e \<Rightarrow> (h, Inl e)
                                    | Inr v \<Rightarrow>
                                        (let a = h ! f_transitioned;
                                             h = h[f_transitioned := slice_assign a i2 (length a) v]
                                         in (h, Inr f_transitioned)))))))))"

section \<open>scri/utilities.py: DeltaCodec\<close>

text \<open>
  \<^verbatim>\<open>u = c.view(np.uint64)\<close> reinterprets the buffer as 64-bit unsigned integers. The
  model starts from that view: a time series is a list of rows (the leading axis), a row is
  the list of the 64-bit lanes of one time step. An ndarray is rectangular: every row has
  the same number of lanes.
\<close>

type_synonym uint64 = "64 word"
type_synonym row = "uint64 list"

definition rectangular :: "row list \<Rightarrow> bool" where
  "rectangular u = (\<forall>r \<in> set u. length r = length (hd u))"

text \<open>\<^verbatim>\<open>np.bitwise_xor(a, b)\<close> on two rows: lane by lane.\<close>

definition bitwise_xor :: "row \<Rightarrow> row \<Rightarrow> row" where
  "bitwise_xor a b = map2 (XOR) a b"

text \<open>
  \<^verbatim>\<open>for i in range(u.shape[0]-1, 0, -1): u[i] = np.bitwise_xor(u[i-1], u[i])\<close>.
  The second argument is the current value of \<open>i\<close>; the loop stops before \<open>i = 0\<close>.
\<close>

fun xor_down :: "row list \<Rightarrow> nat \<Rightarrow> row list" where
  "xor_down u 0 = u"
| "xor_down u (Suc k) = xor_down (u[Suc k := bitwise_xor (u ! k) (u ! Suc k)]) k"

definition xor_timeseries :: "row list \<Rightarrow> row list" where
  "xor_timeseries u = xor_down u (length u - 1)"

text \<open>
  \<^verbatim>\<open>for i in range(1, u.shape[0]): u[i] = np.bitwise_xor(u[i-1], u[i])\<close>.
\<close>

function xor_up :: "row list \<Rightarrow> nat \<Rightarrow> row list" where
  "xor_up u i = (if i < length u
                 then xor_up (u[i := bitwise_xor (u ! (i - 1)) (u ! i)]) (i + 1)
                 else u)"
  by pat_completeness auto
termination
  by (relation "measure (\<lambda>(u, i). length u - i)") auto

definition xor_timeseries_reverse :: "row list \<Rightarrow> row list" where
  "xor_timeseries_reverse u = xor_up u 1"

section \<open>scri/utilities.py: IntegrityChecksum\<close>

type_synonym uint16 = "16 word"
type_synonym uint32 = "32 word"

text \<open>
  \<^verbatim>\<open>data = data.reshape((data.size,)).view(np.uint16)\<close>: the model starts from the flat
  sequence of 16-bit halfwords. The accumulators are \<^verbatim>\<open>np.uint32\<close>: addition wraps
  modulo \<open>2 ^ 32\<close>.

  The inner loop \<^verbatim>\<open>for i in range(block_length): c0 += data[j]; c1 += c0; j += 1\<close>;
  the first argument counts the iterations that remain.
\<close>

fun block_loop :: "uint16 list \<Rightarrow> nat \<Rightarrow> uint32 \<times> uint32 \<times> nat \<Rightarrow> uint32 \<times> uint32 \<times> nat" where
  "block_loop data 0 s = s"
| "block_loop data (Suc n) (c0, c1, j) =
     (let c0' = c0 + ucast (data ! j);
          c1' = c1 + c0'
      in block_loop data n (c0', c1', j + 1))"

definition block_size :: nat where
  "block_size = 360"

text \<open>The outer loop \<^verbatim>\<open>while j < size\<close> with the two reductions after each block.\<close>

function fletcher_loop :: "uint16 list \<Rightarrow> uint32 \<times> uint32 \<times> nat \<Rightarrow> uint32 \<times> uint32" where
  "fletcher_loop data (c0, c1, j) =
     (if j < length data
      then (let block_length = min block_size (length data - j);
                s = block_loop data block_length (c0, c1, j)
            in fletcher_loop data (fst s mod 65535, fst (snd s) mod 65535, snd (snd s)))
      else (c0, c1))"
  by pat_completeness auto
termination
proof (relation "measure (\<lambda>(data, c0, c1, j). length data - j)")
  fix data :: "uint16 list" and c0 c1 :: uint32 and j block_length :: nat and s
  assume j: "j < length data"
    and bl: "block_length = min block_size (length data - j)"
    and s: "s = block_loop data block_length (c0, c1, j)"
  have "snd (snd (block_loop data n (a, b, k))) = k + n" for n a b k
    by (induction n arbitrary: a b k) (simp_all add: Let_def)
  then have "snd (snd s) = j + block_length" using s by simp
  then show "((data, fst s mod 65535, fst (snd s) mod 65535, snd (snd s)), (data, c0, c1, j))
             \<in> measure (\<lambda>(data, c0, c1, j). length data - j)"
    using j bl by (simp add: block_size_def)
qed simp

definition fletcher32 :: "uint16 list \<Rightarrow> uint32" where
  "fletcher32 data = (let (c0, c1) = fletcher_loop data (0, 0, 0) in push_bit 16 c1 OR c0)"

subsection \<open>The algorithm as the specification words it\<close>

text \<open>
  The specification: view the data as halfwords, start from \<open>c0 = c1 = 0\<close>, process the
  halfwords in blocks of at most 360, in a block do \<open>c0 += d\<close> then \<open>c1 += c0\<close> for each
  halfword \<open>d\<close>, reduce both accumulators modulo 65535 after every block, the last and
  possibly short one included, and return \<open>(c1 << 16) | c0\<close>.
\<close>

function blocks_of :: "uint16 list \<Rightarrow> uint16 list list" where
  "blocks_of ds = (if ds = [] then [] else take 360 ds # blocks_of (drop 360 ds))"
  by pat_completeness auto
termination
  by (relation "measure length") auto

definition spec_add :: "uint16 \<Rightarrow> uint32 \<times> uint32 \<Rightarrow> uint32 \<times> uint32" where
  "spec_add d = (\<lambda>(c0, c1). (c0 + ucast d, c1 + (c0 + ucast d)))"

definition spec_block :: "uint16 list \<Rightarrow> uint32 \<times> uint32 \<Rightarrow> uint32 \<times> uint32" where
  "spec_block blk s = (let (c0, c1) = fold spec_add blk s in (c0 mod 65535, c1 mod 65535))"

definition spec_fletcher32 :: "uint16 list \<Rightarrow> uint32" where
  "spec_fletcher32 data =
     (let (c0, c1) = fold spec_block (blocks_of data) (0, 0) in push_bit 16 c1 OR c0)"

subsection \<open>The accumulators in exact integer arithmetic\<close>

text \<open>
  The loops of \<^verbatim>\<open>fletcher32\<close> once more, with unbounded integers in place of
  \<^verbatim>\<open>np.uint32\<close>, recording both accumulators after every addition. \<open>block_exact\<close> is
  the inner loop over the halfwords of one block, \<open>fletcher_exact\<close> the outer loop with
  its reductions; it returns the recorded values and the final pair of accumulators.
\<close>

fun block_exact :: "nat \<times> nat \<Rightarrow> uint16 list \<Rightarrow> (nat \<times> nat) list" where
  "block_exact (c0, c1) [] = []"
| "block_exact (c0, c1) (d # ds) =
     (let c0' = c0 + unat d;
          c1' = c1 + c0'
      in (c0', c1') # block_exact (c0', c1') ds)"

function fletcher_exact :: "uint16 list \<Rightarrow> nat \<times> nat \<times> nat \<Rightarrow> (nat \<times> nat) list \<times> (nat \<times> nat)" where
  "fletcher_exact data (c0, c1, j) =
     (if j < length data
      then (let block_length = min block_size (length data - j);
                tr = block_exact (c0, c1) (take block_length (drop j data));
                s = last ((c0, c1) # tr);
                r = fletcher_exact data (fst s mod 65535, snd s mod 65535, j + block_length)
            in (tr @ fst r, snd r))
      else ([], (c0, c1)))"
  by pat_completeness auto
termination
  by (relation "measure (\<lambda>(data, c0, c1, j). length data - j)") (auto simp: block_size_def)

section \<open>scri/utilities.py: the window functions in double arithmetic\<close>

text \<open>
  The exact arithmetic of the sections above leaves out what doubles do at their limits.
  Here \<^verbatim>\<open>_transition_function\<close>, \<^verbatim>\<open>transition_function\<close>,
  \<^verbatim>\<open>transition_function_derivative\<close> and \<^verbatim>\<open>transition_to_constant\<close> are modelled with the
  arithmetic of the machine as a parameter. A grid sample or a boundary is a finite double,
  taken at its real value, so that the comparisons of the scans are exact. A computed value
  is a \<open>double\<close>: finite, an infinity or NaN; the two zeros are one value. The operations
  \<^verbatim>\<open>-\<close>, \<^verbatim>\<open>+\<close>, \<^verbatim>\<open>*\<close>, \<^verbatim>\<open>/\<close>, \<^verbatim>\<open>**2\<close> and \<^verbatim>\<open>np.exp\<close> on doubles and the constant \<^verbatim>\<open>maxexp\<close> of
  line 7 are the fields of a record; nothing is assumed about how they round, overflow or
  underflow.
\<close>

datatype double = Finite real | PInf | NInf | NaN

record float_ops =
  fsub :: "double \<Rightarrow> double \<Rightarrow> double"
  fadd :: "double \<Rightarrow> double \<Rightarrow> double"
  fmul :: "double \<Rightarrow> double \<Rightarrow> double"
  fquot :: "double \<Rightarrow> double \<Rightarrow> double"
  fsquare :: "double \<Rightarrow> double"
  fexp :: "double \<Rightarrow> double"
  fmaxexp :: double

text \<open>The comparison \<^verbatim>\<open>a <= b\<close> of two doubles: false when either is NaN.\<close>

fun dle :: "double \<Rightarrow> double \<Rightarrow> bool" where
  "dle NaN b = False"
| "dle a NaN = False"
| "dle (Finite a) (Finite b) = (a \<le> b)"
| "dle NInf b = True"
| "dle a PInf = True"
| "dle PInf b = False"
| "dle a NInf = False"

text \<open>The comparison \<^verbatim>\<open>a == b\<close> of two doubles: false when either is NaN.\<close>

definition deq :: "double \<Rightarrow> double \<Rightarrow> bool" where
  "deq a b = (a \<noteq> NaN \<and> b \<noteq> NaN \<and> a = b)"

text \<open>The unary minus, which is exact.\<close>

fun dneg :: "double \<Rightarrow> double" where
  "dneg (Finite a) = Finite (- a)"
| "dneg PInf = NInf"
| "dneg NInf = PInf"
| "dneg NaN = NaN"

text \<open>
  The division \<^verbatim>\<open>a / b\<close> inside a function that \<^verbatim>\<open>jit\<close> compiles: numba compiles it with
  Python's error model, in which a zero divisor raises \<^verbatim>\<open>ZeroDivisionError\<close>.
\<close>

definition fdiv :: "float_ops \<Rightarrow> double \<Rightarrow> double \<Rightarrow> error + double" where
  "fdiv A a b = (if b = Finite 0 then Inl ZeroDivisionError else Inr (fquot A a b))"

text \<open>\<^verbatim>\<open>tau = (x[i] - x0) / (x1 - x0)\<close> and \<^verbatim>\<open>1.0/tau - 1.0/(1.0-tau)\<close>.\<close>

definition tau_fp :: "float_ops \<Rightarrow> real \<Rightarrow> real \<Rightarrow> real \<Rightarrow> error + double" where
  "tau_fp A x0 x1 xi = fdiv A (fsub A (Finite xi) (Finite x0)) (fsub A (Finite x1) (Finite x0))"

definition exponent_fp :: "float_ops \<Rightarrow> double \<Rightarrow> error + double" where
  "exponent_fp A tau =
     (case fdiv A (Finite 1) tau of
        Inl e \<Rightarrow> Inl e
      | Inr a \<Rightarrow>
          (case fdiv A (Finite 1) (fsub A (Finite 1) tau) of
             Inl e \<Rightarrow> Inl e
           | Inr b \<Rightarrow> Inr (fsub A a b)))"

text \<open>The body of the loop of \<^verbatim>\<open>_transition_function\<close> (lines 20 to 25) at the sample \<open>xi\<close>.\<close>

definition transition_value_fp ::
  "float_ops \<Rightarrow> real \<Rightarrow> real \<Rightarrow> double \<Rightarrow> double \<Rightarrow> real \<Rightarrow> error + double" where
  "transition_value_fp A x0 x1 y0 ydiff xi =
     (case tau_fp A x0 x1 xi of
        Inl e \<Rightarrow> Inl e
      | Inr tau \<Rightarrow>
          (case exponent_fp A tau of
             Inl e \<Rightarrow> Inl e
           | Inr exponent \<Rightarrow>
               if dle (fmaxexp A) exponent then Inr y0
               else (case fdiv A ydiff (fadd A (Finite 1) (fexp A exponent)) of
                       Inl e \<Rightarrow> Inl e
                     | Inr q \<Rightarrow> Inr (fadd A y0 q))))"

text \<open>
  The body of the loop of \<^verbatim>\<open>transition_function_derivative\<close> (lines 87 to 93) at the sample
  \<open>xi\<close>; the factors of line 93 are multiplied from the left, and the quotient is taken
  last.
\<close>

definition derivative_value_fp ::
  "float_ops \<Rightarrow> real \<Rightarrow> real \<Rightarrow> double \<Rightarrow> real \<Rightarrow> error + double" where
  "derivative_value_fp A x0 x1 ydiff xi =
     (case tau_fp A x0 x1 xi of
        Inl e \<Rightarrow> Inl e
      | Inr tau \<Rightarrow>
          (case exponent_fp A tau of
             Inl e \<Rightarrow> Inl e
           | Inr exponent \<Rightarrow>
               if dle (fmaxexp A) exponent then Inr (Finite 0)
               else (case exponent_fp A tau of
                       Inl e \<Rightarrow> Inl e
                     | Inr exponent' \<Rightarrow>
                         (let exponential = fexp A exponent' in
                          case fdiv A (Finite (- 1)) (fsquare A tau) of
                            Inl e \<Rightarrow> Inl e
                          | Inr c \<Rightarrow>
                              (case fdiv A (Finite 1) (fsquare A (fsub A (Finite 1) tau)) of
                                 Inl e \<Rightarrow> Inl e
                               | Inr d \<Rightarrow>
                                   (case fdiv A (Finite 1) (fsub A (Finite x1) (Finite x0)) of
                                      Inl e \<Rightarrow> Inl e
                                    | Inr s \<Rightarrow>
                                        fdiv A
                                          (fmul A (fmul A (fmul A (dneg ydiff) exponential)
                                                          (fsub A c d)) s)
                                          (fsquare A (fadd A (Finite 1) exponential))))))))"

text \<open>
  The filling scan \<^verbatim>\<open>while x[i] < x1: buf[i] = f(x[i]); i += 1\<close> with a body that may raise.
\<close>

function fill_while_lt_fp ::
  "(real \<Rightarrow> error + 'v) \<Rightarrow> real list \<Rightarrow> real \<Rightarrow> 'v list \<Rightarrow> nat \<Rightarrow> error + ('v list \<times> nat)" where
  "fill_while_lt_fp f x x1 buf i =
     (if length x \<le> i then Inl IndexError
      else if x ! i < x1
        then (case f (x ! i) of
                Inl e \<Rightarrow> Inl e
              | Inr v \<Rightarrow> fill_while_lt_fp f x x1 (buf[i := v]) (i + 1))
        else Inr (buf, i))"
  by pat_completeness auto
termination
  by (relation "measure (\<lambda>(f, x, x1, buf, i). length x - i)") auto

text \<open>\<^verbatim>\<open>_transition_function(x, x0, x1, y0, y1)\<close>, on the fresh buffer \<open>buf\<close>.\<close>

definition transition_into_fp ::
  "float_ops \<Rightarrow> double list \<Rightarrow> real list \<Rightarrow> real \<Rightarrow> real \<Rightarrow> double \<Rightarrow> double
   \<Rightarrow> error + (double list \<times> nat \<times> nat)" where
  "transition_into_fp A buf x x0 x1 y0 y1 =
     (let ydiff = fsub A y1 y0 in
      case scan_le x x0 0 of
        Inl e \<Rightarrow> Inl e
      | Inr i0 \<Rightarrow>
          (let transition = slice_assign buf 0 i0 y0 in
           case fill_while_lt_fp (transition_value_fp A x0 x1 y0 ydiff) x x1 transition i0 of
             Inl e \<Rightarrow> Inl e
           | Inr (transition, i1) \<Rightarrow>
               Inr (slice_assign transition i1 (length transition) y1, i0, i1)))"

definition empty_like_fp :: "real list \<Rightarrow> double list" where
  "empty_like_fp x = replicate (length x) (Finite 0)"

definition zeros_like_fp :: "real list \<Rightarrow> double list" where
  "zeros_like_fp x = replicate (length x) (Finite 0)"

definition transition_function_impl_fp ::
  "float_ops \<Rightarrow> real list \<Rightarrow> real \<Rightarrow> real \<Rightarrow> double \<Rightarrow> double
   \<Rightarrow> error + (double list \<times> nat \<times> nat)" where
  "transition_function_impl_fp A x x0 x1 y0 y1 = transition_into_fp A (empty_like_fp x) x x0 x1 y0 y1"

datatype transition_result_fp = WithIndices_fp "double list" nat nat | ArrayOnly_fp "double list"

definition transition_function_fp ::
  "float_ops \<Rightarrow> real list \<Rightarrow> real \<Rightarrow> real \<Rightarrow> double \<Rightarrow> double \<Rightarrow> bool
   \<Rightarrow> error + transition_result_fp" where
  "transition_function_fp A x x0 x1 y0 y1 return_indices =
     (if return_indices
      then (case transition_function_impl_fp A x x0 x1 y0 y1 of
              Inl e \<Rightarrow> Inl e | Inr (y, i0, i1) \<Rightarrow> Inr (WithIndices_fp y i0 i1))
      else (case transition_function_impl_fp A x x0 x1 y0 y1 of
              Inl e \<Rightarrow> Inl e | Inr (y, i0, i1) \<Rightarrow> Inr (ArrayOnly_fp y)))"

definition transition_function_derivative_fp ::
  "float_ops \<Rightarrow> real list \<Rightarrow> real \<Rightarrow> real \<Rightarrow> double \<Rightarrow> double \<Rightarrow> error + double list" where
  "transition_function_derivative_fp A x x0 x1 y0 y1 =
     (let transition_prime = zeros_like_fp x;
          ydiff = fsub A y1 y0 in
      case scan_le x x0 0 of
        Inl e \<Rightarrow> Inl e
      | Inr i \<Rightarrow>
          (case fill_while_lt_fp (derivative_value_fp A x0 x1 ydiff) x x1 transition_prime i of
             Inl e \<Rightarrow> Inl e
           | Inr (transition_prime, i) \<Rightarrow> Inr transition_prime))"

text \<open>
  \<^verbatim>\<open>transition_to_constant(f, t, t1, t2)\<close> as a function from the arrays to the array it
  returns; that it writes to no array but its own is the matter of the store model above.
  The products and the subtraction are numpy's, which raise for no value. The integrator
  is the parameter \<open>indefinite_integral\<close>.
\<close>

definition multiply_fp :: "float_ops \<Rightarrow> double list \<Rightarrow> double list \<Rightarrow> error + double list" where
  "multiply_fp A a b = (if length a = length b then Inr (map2 (fmul A) a b) else Inl ValueError)"

definition isub_slice_fp ::
  "float_ops \<Rightarrow> double list \<Rightarrow> nat \<Rightarrow> nat \<Rightarrow> double list \<Rightarrow> error + double list" where
  "isub_slice_fp A a i j d =
     (if length d = length (slice_of a i j)
      then Inr (map (\<lambda>k. if i \<le> k \<and> k < j then fsub A (a ! k) (d ! (k - i)) else a ! k)
                  [0..<length a])
      else Inl ValueError)"

definition transition_to_constant_fp ::
  "float_ops \<Rightarrow> (double list \<Rightarrow> real list \<Rightarrow> error + double list) \<Rightarrow> double list \<Rightarrow> real list
   \<Rightarrow> real \<Rightarrow> real \<Rightarrow> error + double list" where
  "transition_to_constant_fp A indefinite_integral f t t1 t2 =
     (case transition_function_fp A t t1 t2 (Finite 1) (Finite 0) True of
        Inl e \<Rightarrow> Inl e
      | Inr (ArrayOnly_fp y) \<Rightarrow> Inl ValueError
      | Inr (WithIndices_fp transition i1 i2) \<Rightarrow>
          (case transition_function_derivative_fp A t t1 t2 (Finite 1) (Finite 0) of
             Inl e \<Rightarrow> Inl e
           | Inr transition_dot \<Rightarrow>
               (case multiply_fp A f transition of
                  Inl e \<Rightarrow> Inl e
                | Inr f_transitioned \<Rightarrow>
                    (case multiply_fp A (slice_of f i1 i2) (slice_of transition_dot i1 i2) of
                       Inl e \<Rightarrow> Inl e
                     | Inr g \<Rightarrow>
                         (case indefinite_integral g (slice_of t i1 i2) of
                            Inl e \<Rightarrow> Inl e
                          | Inr integral \<Rightarrow>
                              (case isub_slice_fp A f_transitioned i1 i2 integral of
                                 Inl e \<Rightarrow> Inl e
                               | Inr f_transitioned \<Rightarrow>
                                   (case index_before f_transitioned i2 of
                                      Inl e \<Rightarrow> Inl e
                                    | Inr v \<Rightarrow>
                                        Inr (slice_assign f_transitioned i2
                                               (length f_transitioned) v))))))))"

subsection \<open>Instances of the arithmetic\<close>

text \<open>
  Exact arithmetic: the operations of the reals on the finite values, with no rounding and
  no overflow. On the other values, which then never arise, the binary operations give NaN.
\<close>

fun lift2 :: "(real \<Rightarrow> real \<Rightarrow> real) \<Rightarrow> double \<Rightarrow> double \<Rightarrow> double" where
  "lift2 f (Finite a) (Finite b) = Finite (f a b)"
| "lift2 f a b = NaN"

fun exp_exact :: "double \<Rightarrow> double" where
  "exp_exact (Finite a) = Finite (exp a)"
| "exp_exact PInf = PInf"
| "exp_exact NInf = Finite 0"
| "exp_exact NaN = NaN"

definition exact :: float_ops where
  "exact = \<lparr> fsub = lift2 (-), fadd = lift2 (+), fmul = lift2 (*), fquot = lift2 (/),
             fsquare = (\<lambda>a. lift2 (*) a a), fexp = exp_exact, fmaxexp = Finite maxexp \<rparr>"

text \<open>
  Exact arithmetic with the underflow of the quotient: a quotient of magnitude at most
  \<open>2 ^ - 1075\<close>, half the least positive double, is zero, as it is for doubles under
  rounding to nearest.
\<close>

fun flush :: "double \<Rightarrow> double" where
  "flush (Finite q) = (if \<bar>q\<bar> \<le> 1 / 2 ^ 1075 then Finite 0 else Finite q)"
| "flush d = d"

definition underflowing :: float_ops where
  "underflowing = exact \<lparr> fquot := (\<lambda>a b. flush (lift2 (/) a b)) \<rparr>"

text \<open>
  An integrator for the examples: the running trapezoid sum in exact arithmetic, which
  refuses a region of fewer than four samples and arrays of different lengths.
\<close>

fun the_real :: "double \<Rightarrow> real" where
  "the_real (Finite a) = a"
| "the_real d = 0"

fun cumtrapz :: "real \<Rightarrow> real \<Rightarrow> real \<Rightarrow> real list \<Rightarrow> real list \<Rightarrow> real list" where
  "cumtrapz acc f0 t0 (f1 # fs) (t1 # ts) =
     (let acc' = acc + (f1 + f0) * ((t1 - t0) / 2) in acc' # cumtrapz acc' f1 t1 fs ts)"
| "cumtrapz acc f0 t0 fs ts = []"

definition trapezoid :: "double list \<Rightarrow> real list \<Rightarrow> error + double list" where
  "trapezoid g ts =
     (if length g \<noteq> length ts \<or> length ts < 4 then Inl ValueError
      else Inr (map Finite (0 # cumtrapz 0 (the_real (hd g)) (hd ts) (map the_real (tl g)) (tl ts))))"


section \<open>Verification: DeltaCodec\<close>

declare xor_up.simps [simp del]

lemma bitwise_xor_length: "length (bitwise_xor a b) = min (length a) (length b)"
  by (simp add: bitwise_xor_def)

lemma bitwise_xor_cancel: "length a = length b \<Longrightarrow> bitwise_xor a (bitwise_xor a b) = b"
  by (rule nth_equalityI) (simp_all add: bitwise_xor_def)

lemma xor_down_length: "length (xor_down u k) = length u"
  by (induction k arbitrary: u) simp_all

lemma xor_down_nth:
  "k < length u \<Longrightarrow> j < length u \<Longrightarrow>
   xor_down u k ! j = (if 0 < j \<and> j \<le> k then bitwise_xor (u ! (j - 1)) (u ! j) else u ! j)"
proof (induction k arbitrary: u)
  case 0
  then show ?case by auto
next
  case (Suc k)
  let ?u = "u[Suc k := bitwise_xor (u ! k) (u ! Suc k)]"
  have "xor_down u (Suc k) ! j = xor_down ?u k ! j" by simp
  also have "\<dots> = (if 0 < j \<and> j \<le> k then bitwise_xor (?u ! (j - 1)) (?u ! j) else ?u ! j)"
    using Suc.prems by (intro Suc.IH) simp_all
  also have "\<dots> = (if 0 < j \<and> j \<le> Suc k then bitwise_xor (u ! (j - 1)) (u ! j) else u ! j)"
    using Suc.prems by (cases "j = Suc k") auto
  finally show ?case .
qed

lemma xor_timeseries_length: "length (xor_timeseries u) = length u"
  by (simp add: xor_timeseries_def xor_down_length)

lemma xor_timeseries_nth:
  "j < length u \<Longrightarrow>
   xor_timeseries u ! j = (if 0 < j then bitwise_xor (u ! (j - 1)) (u ! j) else u ! j)"
  by (cases j) (auto simp: xor_timeseries_def xor_down_nth)

lemma xor_up_length: "length (xor_up u i) = length u"
  by (induction u i rule: xor_up.induct) (simp add: xor_up.simps[of u i for u i])

lemma xor_up_before: "j < i \<Longrightarrow> xor_up u i ! j = u ! j"
proof (induction u i rule: xor_up.induct)
  case (1 u i)
  show ?case
  proof (cases "i < length u")
    case True
    then show ?thesis using 1 by (simp add: xor_up.simps[of u i])
  next
    case False
    then show ?thesis by (simp add: xor_up.simps[of u i])
  qed
qed

lemma xor_up_from:
  "0 < i \<Longrightarrow> i \<le> j \<Longrightarrow> j < length u \<Longrightarrow>
   xor_up u i ! j = bitwise_xor (xor_up u i ! (j - 1)) (u ! j)"
proof (induction u i rule: xor_up.induct)
  case (1 u i)
  let ?u = "u[i := bitwise_xor (u ! (i - 1)) (u ! i)]"
  have il: "i < length u" using 1 by simp
  have step: "xor_up u i = xor_up ?u (i + 1)" using il by (simp add: xor_up.simps[of u i])
  show ?case
  proof (cases "i = j")
    case True
    have "xor_up ?u (i + 1) ! j = ?u ! j" using True by (simp add: xor_up_before)
    moreover have "xor_up ?u (i + 1) ! (j - 1) = ?u ! (j - 1)"
      using True "1.prems" by (simp add: xor_up_before)
    ultimately show ?thesis using True il "1.prems" step by simp
  next
    case False
    then have "xor_up ?u (i + 1) ! j = bitwise_xor (xor_up ?u (i + 1) ! (j - 1)) (?u ! j)"
      using "1.prems" il by (intro "1.IH") simp_all
    then show ?thesis using False step by simp
  qed
qed

lemma xor_timeseries_reverse_length: "length (xor_timeseries_reverse u) = length u"
  by (simp add: xor_timeseries_reverse_def xor_up_length)

lemma xor_timeseries_reverse_nth:
  "j < length u \<Longrightarrow>
   xor_timeseries_reverse u ! j =
     (if 0 < j then bitwise_xor (xor_timeseries_reverse u ! (j - 1)) (u ! j) else u ! j)"
  by (simp add: xor_timeseries_reverse_def xor_up_from xor_up_before)

lemma rectangular_nth: "rectangular u \<Longrightarrow> i < length u \<Longrightarrow> j < length u \<Longrightarrow> length (u ! i) = length (u ! j)"
  by (simp add: rectangular_def)

lemma decode_encode:
  assumes "rectangular u"
  shows "xor_timeseries_reverse (xor_timeseries u) = u"
proof (rule nth_equalityI)
  show "length (xor_timeseries_reverse (xor_timeseries u)) = length u"
    by (simp add: xor_timeseries_reverse_length xor_timeseries_length)
next
  fix j assume "j < length (xor_timeseries_reverse (xor_timeseries u))"
  then have "j < length u" by (simp add: xor_timeseries_reverse_length xor_timeseries_length)
  then show "xor_timeseries_reverse (xor_timeseries u) ! j = u ! j"
  proof (induction j)
    case 0
    then show ?case
      by (simp add: xor_timeseries_reverse_nth xor_timeseries_length xor_timeseries_nth)
  next
    case (Suc j)
    then have IH: "xor_timeseries_reverse (xor_timeseries u) ! j = u ! j" by simp
    have "xor_timeseries_reverse (xor_timeseries u) ! Suc j
          = bitwise_xor (u ! j) (bitwise_xor (u ! j) (u ! Suc j))"
      using Suc.prems IH
      by (simp add: xor_timeseries_reverse_nth xor_timeseries_length xor_timeseries_nth)
    also have "\<dots> = u ! Suc j"
      using assms Suc.prems by (intro bitwise_xor_cancel rectangular_nth) simp_all
    finally show ?case .
  qed
qed

lemma decode_row_length:
  assumes "rectangular u" "j < length u"
  shows "length (xor_timeseries_reverse u ! j) = length (u ! j)"
  using assms(2)
proof (induction j)
  case 0
  then show ?case by (simp add: xor_timeseries_reverse_nth)
next
  case (Suc j)
  then have "length (xor_timeseries_reverse u ! j) = length (u ! j)" by simp
  moreover have "length (u ! j) = length (u ! Suc j)"
    using assms(1) Suc.prems by (intro rectangular_nth) simp_all
  ultimately show ?case using Suc.prems
    by (simp add: xor_timeseries_reverse_nth bitwise_xor_length)
qed

lemma encode_decode:
  assumes "rectangular u"
  shows "xor_timeseries (xor_timeseries_reverse u) = u"
proof (rule nth_equalityI)
  show "length (xor_timeseries (xor_timeseries_reverse u)) = length u"
    by (simp add: xor_timeseries_reverse_length xor_timeseries_length)
next
  fix j assume "j < length (xor_timeseries (xor_timeseries_reverse u))"
  then have jl: "j < length u" by (simp add: xor_timeseries_reverse_length xor_timeseries_length)
  show "xor_timeseries (xor_timeseries_reverse u) ! j = u ! j"
  proof (cases j)
    case 0
    then show ?thesis using jl
      by (simp add: xor_timeseries_reverse_nth xor_timeseries_reverse_length xor_timeseries_nth)
  next
    case (Suc k)
    let ?d = "xor_timeseries_reverse u"
    have "xor_timeseries ?d ! j = bitwise_xor (?d ! k) (?d ! Suc k)"
      using jl Suc by (simp add: xor_timeseries_nth xor_timeseries_reverse_length)
    also have "\<dots> = bitwise_xor (?d ! k) (bitwise_xor (?d ! k) (u ! Suc k))"
      using jl Suc by (simp add: xor_timeseries_reverse_nth)
    also have "\<dots> = u ! Suc k"
    proof (rule bitwise_xor_cancel)
      have "length (?d ! k) = length (u ! k)" using assms jl Suc by (intro decode_row_length) simp_all
      also have "\<dots> = length (u ! Suc k)" using assms jl Suc by (intro rectangular_nth) simp_all
      finally show "length (?d ! k) = length (u ! Suc k)" .
    qed
    finally show ?thesis using Suc by simp
  qed
qed

lemma single_row: "xor_timeseries [r] = [r] \<and> xor_timeseries_reverse [r] = [r]"
  by (simp add: xor_timeseries_def xor_timeseries_reverse_def xor_up.simps[of "[r]" "Suc 0"])

text \<open>
  C1. Decoding an encoded series and encoding a decoded series both give back the series,
  lane for lane and bit for bit, for every series of at least two rows; on a series of
  exactly one row both transforms change nothing.
\<close>

theorem xor_roundtrip:
  "(\<forall>u. rectangular u \<and> 2 \<le> length u \<longrightarrow>
        xor_timeseries_reverse (xor_timeseries u) = u \<and>
        xor_timeseries (xor_timeseries_reverse u) = u) \<and>
   (\<forall>r. xor_timeseries [r] = [r] \<and> xor_timeseries_reverse [r] = [r])"
  using decode_encode encode_decode single_row by blast


theorem xor_roundtrip_witness:
  "rectangular [[1, 2], [3, 4], [5, 7]] \<and> 2 \<le> length [[1, 2], [3, 4], [5, 7::uint64]] \<and>
   xor_timeseries [[1, 2], [3, 4], [5, 7]] = [[1, 2], [2, 6], [6, 3]] \<and>
   xor_timeseries_reverse (xor_timeseries [[1, 2], [3, 4], [5, 7]]) = [[1, 2], [3, 4], [5, 7]] \<and>
   xor_timeseries (xor_timeseries_reverse [[1, 2], [3, 4], [5, 7]]) = [[1, 2], [3, 4], [5, 7]]"
proof -
  have r: "rectangular [[1, 2], [3, 4], [5, 7::uint64]]" by (simp add: rectangular_def)
  have l: "2 \<le> length [[1, 2], [3, 4], [5, 7::uint64]]" by simp
  have e: "xor_timeseries [[1, 2], [3, 4], [5, 7::uint64]] = [[1, 2], [2, 6], [6, 3]]"
    by (simp add: xor_timeseries_def bitwise_xor_def numeral_3_eq_3 numeral_2_eq_2)
  from xor_roundtrip r l e show ?thesis by blast
qed


section \<open>Verification: IntegrityChecksum\<close>

declare fletcher_loop.simps [simp del] blocks_of.simps [simp del] fletcher_exact.simps [simp del]


lemma fletcher32_one: "fletcher32 [1] = 0x00010001"
  by (simp add: fletcher32_def fletcher_loop.simps block_size_def Let_def)

lemma block_loop_fold:
  "j + n \<le> length data \<Longrightarrow>
   block_loop data n (c0, c1, j) =
     (fst (fold spec_add (take n (drop j data)) (c0, c1)),
      snd (fold spec_add (take n (drop j data)) (c0, c1)), j + n)"
proof (induction n arbitrary: c0 c1 j)
  case 0
  then show ?case by simp
next
  case (Suc n)
  then have jl: "j < length data" by simp
  have t: "take (Suc n) (drop j data) = data ! j # take n (drop (Suc j) data)"
    using jl by (simp add: take_Suc_conv_app_nth Cons_nth_drop_Suc[symmetric])
  show ?case using Suc.prems Suc.IH[of "Suc j"]
    by (simp add: t Let_def spec_add_def)
qed

lemma fletcher_loop_fold:
  "j \<le> length data \<Longrightarrow>
   fletcher_loop data (c0, c1, j) = fold spec_block (blocks_of (drop j data)) (c0, c1)"
proof (induction data "(c0, c1, j)" arbitrary: c0 c1 j rule: fletcher_loop.induct)
  case (1 data c0 c1 j)
  show ?case
  proof (cases "j < length data")
    case False
    then show ?thesis using "1.prems"
      by (subst fletcher_loop.simps, subst blocks_of.simps) simp
  next
    case True
    define bl where "bl = min block_size (length data - j)"
    define s where "s = block_loop data bl (c0, c1, j)"
    have le: "j + bl \<le> length data" using True by (simp add: bl_def)
    have s_eq: "s = (fst (fold spec_add (take bl (drop j data)) (c0, c1)),
                     snd (fold spec_add (take bl (drop j data)) (c0, c1)), j + bl)"
      unfolding s_def using le by (rule block_loop_fold)
    have tk: "take bl (drop j data) = take 360 (drop j data)"
      by (simp add: bl_def block_size_def min_def)
    have dr: "drop (j + bl) data = drop 360 (drop j data)"
      using True by (simp add: bl_def block_size_def min_def add.commute)
    have IH: "fletcher_loop data (fst s mod 65535, fst (snd s) mod 65535, snd (snd s))
              = fold spec_block (blocks_of (drop (snd (snd s)) data))
                  (fst s mod 65535, fst (snd s) mod 65535)"
      using True le s_eq by (intro "1.hyps"[OF True bl_def s_def]) simp_all
    have "fletcher_loop data (c0, c1, j)
          = fletcher_loop data (fst s mod 65535, fst (snd s) mod 65535, snd (snd s))"
      using True by (simp add: fletcher_loop.simps[of data c0 c1 j] Let_def bl_def s_def)
    also note IH
    also have "fold spec_block (blocks_of (drop (snd (snd s)) data))
                  (fst s mod 65535, fst (snd s) mod 65535)
               = fold spec_block (blocks_of (drop j data)) (c0, c1)"
      using True
      by (simp add: blocks_of.simps[of "drop j data"] s_eq tk dr spec_block_def Let_def
            split: prod.splits)
    finally show ?thesis .
  qed
qed

text \<open>
  C3. \<open>fletcher32\<close> computes exactly the algorithm of the specification: halfwords in
  blocks of at most 360, \<open>c0 += d\<close> then \<open>c1 += c0\<close> in 32-bit accumulators that start
  at 0, both reduced modulo 65535 after every block, result \<open>(c1 << 16) | c0\<close>. On the
  single halfword \<open>0x0001\<close> it returns \<open>0x00010001\<close>.
\<close>

theorem fletcher32_algorithm:
  "fletcher32 data = spec_fletcher32 data \<and> fletcher32 [1] = 0x00010001"
proof
  show "fletcher32 data = spec_fletcher32 data"
    using fletcher_loop_fold[of 0 data 0 0] by (simp add: fletcher32_def spec_fletcher32_def)
  show "fletcher32 [1] = 0x00010001"
    by (rule fletcher32_one)
qed

lemma blocks_of_concat: "concat (blocks_of ds) = ds"
  by (induction ds rule: blocks_of.induct) (subst blocks_of.simps, simp)

lemma blocks_of_sizes: "blk \<in> set (blocks_of ds) \<Longrightarrow> 0 < length blk \<and> length blk \<le> 360"
proof (induction ds rule: blocks_of.induct)
  case (1 ds)
  show ?case
  proof (cases "ds = []")
    case True
    then show ?thesis using "1.prems" by (simp add: blocks_of.simps[of "[]"])
  next
    case False
    then have "blk = take 360 ds \<or> blk \<in> set (blocks_of (drop 360 ds))"
      using "1.prems" by (simp add: blocks_of.simps[of ds])
    then show ?thesis using False "1.IH" by auto
  qed
qed

lemma unat_halfword: "unat (d :: uint16) \<le> 65535"
  using unsigned_less[of d, where 'a = nat] by simp

lemma block_exact_bound:
  "(a, b) \<in> set (block_exact (c0, c1) ds) \<Longrightarrow>
   a \<le> c0 + 65535 * length ds \<and>
   2 * b \<le> 2 * c1 + 2 * (length ds * c0) + 65535 * (length ds * (length ds + 1))"
proof (induction ds arbitrary: c0 c1)
  case Nil
  then show ?case by simp
next
  case (Cons d ds)
  let ?n = "length ds"
  have d: "unat d \<le> 65535" by (rule unat_halfword)
  have nd: "?n * unat d \<le> ?n * 65535" using d by (rule mult_le_mono2)
  show ?case
  proof (cases "(a, b) = (c0 + unat d, c1 + (c0 + unat d))")
    case True
    then show ?thesis using d by (simp add: algebra_simps)
  next
    case False
    then have "(a, b) \<in> set (block_exact (c0 + unat d, c1 + (c0 + unat d)) ds)"
      using Cons.prems by (auto simp: Let_def)
    from Cons.IH[OF this]
    have a: "a \<le> c0 + unat d + 65535 * ?n"
      and b: "2 * b \<le> 2 * (c1 + (c0 + unat d)) + 2 * (?n * (c0 + unat d)) + 65535 * (?n * (?n + 1))"
      by simp_all
    define P Q R where pqr: "P = ?n * unat d" "Q = ?n * c0" "R = ?n * ?n"
    have b': "2 * b \<le> 2 * c1 + 2 * c0 + 2 * unat d + 2 * Q + 2 * P + 65535 * R + 65535 * ?n"
      using b by (simp add: algebra_simps pqr)
    have P: "P \<le> 65535 * ?n" using nd by (simp add: pqr mult.commute)
    have rhs: "2 * c1 + 2 * (length (d # ds) * c0)
                 + 65535 * (length (d # ds) * (length (d # ds) + 1))
               = 2 * c1 + 2 * c0 + 2 * Q + 65535 * R + 3 * 65535 * ?n + 2 * 65535"
      by (simp add: algebra_simps pqr)
    have b'': "2 * b \<le> 2 * c1 + 2 * c0 + 2 * Q + 65535 * R + 3 * 65535 * ?n + 2 * 65535"
      using b' P d by linarith
    show ?thesis
    proof
      show "a \<le> c0 + 65535 * length (d # ds)" using a d by simp
      show "2 * b \<le> 2 * c1 + 2 * (length (d # ds) * c0)
                 + 65535 * (length (d # ds) * (length (d # ds) + 1))"
        unfolding rhs by (rule b'')
    qed
  qed
qed

lemma block_exact_fits:
  assumes "c0 \<le> 65534" "c1 \<le> 65534" "length ds \<le> 360"
    and "(a, b) \<in> set (block_exact (c0, c1) ds)"
  shows "a \<le> 2 ^ 32 - 1 \<and> b \<le> 2 ^ 32 - 1"
proof -
  let ?n = "length ds"
  from block_exact_bound[OF assms(4)]
  have a: "a \<le> c0 + 65535 * ?n"
    and b: "2 * b \<le> 2 * c1 + 2 * (?n * c0) + 65535 * (?n * (?n + 1))" by simp_all
  have "?n * c0 \<le> 360 * 65534" using assms(3,1) by (rule mult_le_mono)
  moreover have "?n * (?n + 1) \<le> 360 * 361" using assms(3) by (intro mult_le_mono) simp_all
  ultimately show ?thesis using a b assms(1,2,3) by simp
qed


lemma fletcher_exact_fits:
  "c0 \<le> 65534 \<Longrightarrow> c1 \<le> 65534 \<Longrightarrow> (a, b) \<in> set (fst (fletcher_exact data (c0, c1, j))) \<Longrightarrow>
   a \<le> 2 ^ 32 - 1 \<and> b \<le> 2 ^ 32 - 1"
proof (induction data "(c0, c1, j)" arbitrary: c0 c1 j rule: fletcher_exact.induct)
  case (1 data c0 c1 j)
  show ?case
  proof (cases "j < length data")
    case False
    then show ?thesis using "1.prems" by (simp add: fletcher_exact.simps[of data c0 c1 j])
  next
    case True
    define bl where "bl = min block_size (length data - j)"
    define tr where "tr = block_exact (c0, c1) (take bl (drop j data))"
    define s where "s = last ((c0, c1) # tr)"
    have mem: "(a, b) \<in> set tr \<or>
               (a, b) \<in> set (fst (fletcher_exact data (fst s mod 65535, snd s mod 65535, j + bl)))"
      using "1.prems"(3) True
      by (simp add: fletcher_exact.simps[of data c0 c1 j] Let_def bl_def tr_def s_def)
    then show ?thesis
    proof
      assume "(a, b) \<in> set tr"
      moreover have "length (take bl (drop j data)) \<le> 360" by (simp add: bl_def block_size_def)
      ultimately show ?thesis using "1.prems"(1,2) unfolding tr_def
        by (intro block_exact_fits[of c0 c1 "take bl (drop j data)"]) 
    next
      assume "(a, b) \<in> set (fst (fletcher_exact data (fst s mod 65535, snd s mod 65535, j + bl)))"
      moreover have "fst s mod 65535 \<le> 65534" "snd s mod 65535 \<le> 65534"
        by (simp_all add: less_Suc_eq_le[symmetric])
      ultimately show ?thesis
        by (intro "1.hyps"[OF True bl_def tr_def s_def])
    qed
  qed
qed

lemma block_exact_replicate:
  "2 * snd (last ((c0, c1) # block_exact (c0, c1) (replicate n d)))
   = 2 * c1 + 2 * (n * c0) + unat d * (n * (n + 1))"
proof (induction n arbitrary: c0 c1)
  case 0
  then show ?case by simp
next
  case (Suc n)
  have e: "block_exact (c0, c1) (replicate (Suc n) d)
           = (c0 + unat d, c1 + (c0 + unat d))
             # block_exact (c0 + unat d, c1 + (c0 + unat d)) (replicate n d)"
    by (simp add: Let_def)
  have "last ((c0, c1) # block_exact (c0, c1) (replicate (Suc n) d))
        = last ((c0 + unat d, c1 + (c0 + unat d))
                # block_exact (c0 + unat d, c1 + (c0 + unat d)) (replicate n d))"
    unfolding e by (rule last_ConsR) simp
  then show ?case using Suc.IH[of "c0 + unat d" "c1 + (c0 + unat d)"]
    by (simp add: algebra_simps del: last.simps)
qed

lemma block_exact_nonempty: "ds \<noteq> [] \<Longrightarrow> block_exact s ds \<noteq> []"
  by (cases ds; cases s) (simp_all add: Let_def)

lemma block_361_overflows:
  "\<exists>(a, b) \<in> set (block_exact (65534, 65534) (replicate 361 0xFFFF)). 2 ^ 32 - 1 < b"
proof -
  let ?tr = "block_exact (65534, 65534) (replicate 361 (0xFFFF :: uint16))"
  have ne: "?tr \<noteq> []" by (rule block_exact_nonempty) simp
  then have mem: "last ?tr \<in> set ?tr" by (rule last_in_set)
  have "2 * snd (last ((65534, 65534) # ?tr)) = 2 * 65534 + 2 * (361 * 65534) + unat (0xFFFF :: uint16) * (361 * (361 + 1))"
    by (rule block_exact_replicate)
  then have "2 ^ 32 - 1 < snd (last ?tr)" using ne by simp
  then show ?thesis using mem by (auto simp: case_prod_beta intro!: bexI[of _ "last ?tr"])
qed


lemma block_loop_exact:
  "j + n \<le> length data \<Longrightarrow>
   block_loop data n (of_nat c0, of_nat c1, j)
   = (of_nat (fst (last ((c0, c1) # block_exact (c0, c1) (take n (drop j data))))),
      of_nat (snd (last ((c0, c1) # block_exact (c0, c1) (take n (drop j data))))), j + n)"
proof (induction n arbitrary: c0 c1 j)
  case 0
  then show ?case by simp
next
  case (Suc n)
  then have jl: "j < length data" by simp
  let ?c0 = "c0 + unat (data ! j)"
  let ?c1 = "c1 + ?c0"
  have t: "take (Suc n) (drop j data) = data ! j # take n (drop (Suc j) data)"
    using jl by (simp add: take_Suc_conv_app_nth Cons_nth_drop_Suc[symmetric])
  have e: "block_exact (c0, c1) (take (Suc n) (drop j data))
           = (?c0, ?c1) # block_exact (?c0, ?c1) (take n (drop (Suc j) data))"
    by (simp add: t Let_def)
  have l: "last ((c0, c1) # block_exact (c0, c1) (take (Suc n) (drop j data)))
           = last ((?c0, ?c1) # block_exact (?c0, ?c1) (take n (drop (Suc j) data)))"
    unfolding e by (rule last_ConsR) simp
  have "block_loop data (Suc n) (of_nat c0, of_nat c1, j)
        = block_loop data n (of_nat ?c0, of_nat ?c1, Suc j)"
    by (simp add: Let_def)
  also have "\<dots> = (of_nat (fst (last ((?c0, ?c1) # block_exact (?c0, ?c1) (take n (drop (Suc j) data))))),
      of_nat (snd (last ((?c0, ?c1) # block_exact (?c0, ?c1) (take n (drop (Suc j) data))))), Suc j + n)"
    using Suc.prems by (intro Suc.IH) simp
  finally show ?case unfolding l by simp
qed

lemma of_nat_mod_65535:
  "a \<le> 2 ^ 32 - 1 \<Longrightarrow> (of_nat a :: uint32) mod 65535 = of_nat (a mod 65535)"
proof -
  assume a: "a \<le> 2 ^ 32 - 1"
  have "unat ((of_nat a :: uint32) mod 65535) = unat (of_nat (a mod 65535) :: uint32)"
    using a by (simp add: unat_mod unat_of_nat)
  then show ?thesis by (rule word_unat_eq_iff[THEN iffD2])
qed


lemma last_block_exact_fits:
  assumes "c0 \<le> 65534" "c1 \<le> 65534" "length ds \<le> 360"
  shows "fst (last ((c0, c1) # block_exact (c0, c1) ds)) \<le> 2 ^ 32 - 1 \<and>
         snd (last ((c0, c1) # block_exact (c0, c1) ds)) \<le> 2 ^ 32 - 1"
proof (cases "block_exact (c0, c1) ds = []")
  case True
  then show ?thesis using assms by simp
next
  case False
  then have "last ((c0, c1) # block_exact (c0, c1) ds) \<in> set (block_exact (c0, c1) ds)"
    by simp
  then show ?thesis using block_exact_fits[OF assms, of "fst (last ((c0, c1) # block_exact (c0, c1) ds))" "snd (last ((c0, c1) # block_exact (c0, c1) ds))"]
    by simp
qed

lemma fletcher_loop_exact:
  "j \<le> length data \<Longrightarrow> c0 \<le> 65534 \<Longrightarrow> c1 \<le> 65534 \<Longrightarrow>
   fletcher_loop data (of_nat c0, of_nat c1, j)
   = (of_nat (fst (snd (fletcher_exact data (c0, c1, j)))),
      of_nat (snd (snd (fletcher_exact data (c0, c1, j)))))"
proof (induction data "(c0, c1, j)" arbitrary: c0 c1 j rule: fletcher_exact.induct)
  case (1 data c0 c1 j)
  show ?case
  proof (cases "j < length data")
    case False
    then show ?thesis
      by (simp add: fletcher_exact.simps[of data c0 c1 j]
                    fletcher_loop.simps[of data "of_nat c0" "of_nat c1" j])
  next
    case True
    define bl where "bl = min block_size (length data - j)"
    define tr where "tr = block_exact (c0, c1) (take bl (drop j data))"
    define s where "s = last ((c0, c1) # tr)"
    have le: "j + bl \<le> length data" using True by (simp add: bl_def)
    have fits: "fst s \<le> 2 ^ 32 - 1 \<and> snd s \<le> 2 ^ 32 - 1"
      unfolding s_def tr_def using "1.prems"(2,3)
      by (intro last_block_exact_fits) (simp_all add: bl_def block_size_def)
    have blk: "block_loop data bl (of_nat c0, of_nat c1, j) = (of_nat (fst s), of_nat (snd s), j + bl)"
      unfolding s_def tr_def using le by (rule block_loop_exact)
    have "fletcher_loop data (of_nat c0, of_nat c1, j)
          = fletcher_loop data (of_nat (fst s) mod 65535, of_nat (snd s) mod 65535, j + bl)"
      using True blk
      by (simp add: fletcher_loop.simps[of data "of_nat c0" "of_nat c1" j] Let_def bl_def)
    also have "\<dots> = fletcher_loop data (of_nat (fst s mod 65535), of_nat (snd s mod 65535), j + bl)"
      using fits by (simp add: of_nat_mod_65535)
    also have "\<dots> = (of_nat (fst (snd (fletcher_exact data (fst s mod 65535, snd s mod 65535, j + bl)))),
                      of_nat (snd (snd (fletcher_exact data (fst s mod 65535, snd s mod 65535, j + bl)))))"
      using le by (intro "1.hyps"[OF True bl_def tr_def s_def]) (simp_all add: less_Suc_eq_le[symmetric])
    also have "\<dots> = (of_nat (fst (snd (fletcher_exact data (c0, c1, j)))),
                      of_nat (snd (snd (fletcher_exact data (c0, c1, j)))))"
      using True by (simp add: fletcher_exact.simps[of data c0 c1 j] Let_def bl_def tr_def s_def)
    finally show ?thesis .
  qed
qed


text \<open>
  C4. In exact integer arithmetic the accumulators stay within 32 bits between two
  reductions: in any block of at most 360 halfwords entered with both accumulators at
  most 65534, and so at every addition of a whole run, whose 32-bit result is therefore
  the exact one. With 361 additions of \<open>0xFFFF\<close> from 65534 the second accumulator
  exceeds \<open>2 ^ 32 - 1\<close>.
\<close>

theorem fletcher32_no_overflow:
  "(\<forall>c0 c1 ds. c0 \<le> 65534 \<and> c1 \<le> 65534 \<and> length ds \<le> block_size \<longrightarrow>
      (\<forall>(a, b) \<in> set (block_exact (c0, c1) ds). a \<le> 2 ^ 32 - 1 \<and> b \<le> 2 ^ 32 - 1)) \<and>
   (\<forall>data.
      (\<forall>(a, b) \<in> set (fst (fletcher_exact data (0, 0, 0))). a \<le> 2 ^ 32 - 1 \<and> b \<le> 2 ^ 32 - 1) \<and>
      fletcher32 data = push_bit 16 (of_nat (snd (snd (fletcher_exact data (0, 0, 0)))))
                        OR of_nat (fst (snd (fletcher_exact data (0, 0, 0))))) \<and>
   (\<exists>(a, b) \<in> set (block_exact (65534, 65534) (replicate (block_size + 1) 0xFFFF)).
      2 ^ 32 - 1 < b)"
proof (intro conjI allI impI)
  fix c0 c1 :: nat and ds :: "uint16 list"
  assume "c0 \<le> 65534 \<and> c1 \<le> 65534 \<and> length ds \<le> block_size"
  then show "\<forall>(a, b) \<in> set (block_exact (c0, c1) ds). a \<le> 2 ^ 32 - 1 \<and> b \<le> 2 ^ 32 - 1"
    using block_exact_fits[of c0 c1 ds] by (auto simp: block_size_def)
next
  fix data :: "uint16 list"
  show "\<forall>(a, b) \<in> set (fst (fletcher_exact data (0, 0, 0))). a \<le> 2 ^ 32 - 1 \<and> b \<le> 2 ^ 32 - 1"
    using fletcher_exact_fits[of 0 0 _ _ data 0] by auto
  show "fletcher32 data = push_bit 16 (of_nat (snd (snd (fletcher_exact data (0, 0, 0)))))
                        OR of_nat (fst (snd (fletcher_exact data (0, 0, 0))))"
    using fletcher_loop_exact[of 0 data 0 0] by (simp add: fletcher32_def)
next
  show "\<exists>(a, b) \<in> set (block_exact (65534, 65534) (replicate (block_size + 1) 0xFFFF)).
          2 ^ 32 - 1 < b"
    using block_361_overflows by (simp add: block_size_def)
qed

theorem fletcher32_no_overflow_witness:
  "(65534 :: nat) \<le> 65534 \<and> length [0xFFFF, 0xFFFF :: uint16] \<le> block_size \<and>
   (196604, 393207) \<in> set (block_exact (65534, 65534) [0xFFFF, 0xFFFF]) \<and>
   (196604 :: nat) \<le> 2 ^ 32 - 1 \<and> (393207 :: nat) \<le> 2 ^ 32 - 1"
proof -
  have h: "(65534 :: nat) \<le> 65534 \<and> (65534 :: nat) \<le> 65534
           \<and> length [0xFFFF, 0xFFFF :: uint16] \<le> block_size"
    by (simp add: block_size_def)
  have m: "(196604, 393207) \<in> set (block_exact (65534, 65534) [0xFFFF, 0xFFFF])"
    by (simp add: Let_def)
  from fletcher32_no_overflow h
  have "\<forall>(a, b) \<in> set (block_exact (65534, 65534) [0xFFFF, 0xFFFF :: uint16]).
          a \<le> 2 ^ 32 - 1 \<and> b \<le> 2 ^ 32 - 1"
    by blast
  with m have "(196604 :: nat) \<le> 2 ^ 32 - 1 \<and> (393207 :: nat) \<le> 2 ^ 32 - 1"
    by blast
  with h m show ?thesis by blast
qed

section \<open>Verification: WindowKernel\<close>

declare scan_le.simps [simp del] fill_while_lt.simps [simp del]

lemma slice_assign_length: "length (slice_assign buf a b v) = length buf"
  by (simp add: slice_assign_def)

lemma slice_assign_nth:
  "k < length buf \<Longrightarrow> slice_assign buf a b v ! k = (if a \<le> k \<and> k < b then v else buf ! k)"
  by (simp add: slice_assign_def)

lemma scan_le_Inr:
  "scan_le x x0 i = Inr k \<Longrightarrow>
   i \<le> k \<and> k < length x \<and> x0 < x ! k \<and> (\<forall>m. i \<le> m \<and> m < k \<longrightarrow> x ! m \<le> x0)"
proof (induction x x0 i rule: scan_le.induct)
  case (1 x x0 i)
  show ?case
  proof (cases "x ! i \<le> x0")
    case True
    have il: "i < length x" using "1.prems" by (simp add: scan_le.simps[of x x0 i] split: if_splits)
    then have "scan_le x x0 (i + 1) = Inr k"
      using "1.prems" True by (simp add: scan_le.simps[of x x0 i])
    with "1.IH" il True
    have IH: "i + 1 \<le> k \<and> k < length x \<and> x0 < x ! k \<and> (\<forall>m. i + 1 \<le> m \<and> m < k \<longrightarrow> x ! m \<le> x0)"
      by simp
    have "x ! m \<le> x0" if "i \<le> m" "m < k" for m
      using that IH True by (cases "m = i") auto
    then show ?thesis using IH by auto
  next
    case False
    then show ?thesis using "1.prems" by (auto simp: scan_le.simps[of x x0 i] split: if_splits)
  qed
qed

lemma scan_le_Inl:
  "scan_le x x0 i = Inl e \<Longrightarrow> e = IndexError \<and> (\<forall>m. i \<le> m \<and> m < length x \<longrightarrow> x ! m \<le> x0)"
proof (induction x x0 i rule: scan_le.induct)
  case (1 x x0 i)
  show ?case
  proof (cases "i < length x")
    case False
    then show ?thesis using "1.prems" by (simp add: scan_le.simps[of x x0 i])
  next
    case il: True
    then have le: "x ! i \<le> x0" and rec: "scan_le x x0 (i + 1) = Inl e"
      using "1.prems" by (simp_all add: scan_le.simps[of x x0 i] split: if_splits)
    with "1.IH" il have IH: "e = IndexError \<and> (\<forall>m. i + 1 \<le> m \<and> m < length x \<longrightarrow> x ! m \<le> x0)"
      by simp
    have "x ! m \<le> x0" if "i \<le> m" "m < length x" for m
      using that IH le by (cases "m = i") auto
    then show ?thesis using IH by auto
  qed
qed

lemma scan_le_finds:
  "i \<le> j \<Longrightarrow> j < length x \<Longrightarrow> x0 < x ! j \<Longrightarrow> \<exists>k. scan_le x x0 i = Inr k"
proof (cases "scan_le x x0 i")
  case (Inl e)
  assume "i \<le> j" "j < length x" "x0 < x ! j"
  then show ?thesis using scan_le_Inl[OF Inl] by force
next
  case (Inr k)
  then show ?thesis by blast
qed

lemma fill_while_lt_Inr:
  "fill_while_lt f x x1 buf i = Inr (buf', k) \<Longrightarrow>
   i \<le> k \<and> k < length x \<and> \<not> x ! k < x1 \<and> (\<forall>m. i \<le> m \<and> m < k \<longrightarrow> x ! m < x1) \<and>
   length buf' = length buf \<and>
   (\<forall>m < length buf. buf' ! m = (if i \<le> m \<and> m < k then f (x ! m) else buf ! m))"
proof (induction f x x1 buf i rule: fill_while_lt.induct)
  case (1 f x x1 buf i)
  have il: "i < length x"
    using "1.prems" by (simp add: fill_while_lt.simps[of f x x1 buf i] split: if_splits)
  show ?case
  proof (cases "x ! i < x1")
    case True
    let ?b = "buf[i := f (x ! i)]"
    have "fill_while_lt f x x1 ?b (i + 1) = Inr (buf', k)"
      using "1.prems" True il by (simp add: fill_while_lt.simps[of f x x1 buf i])
    with "1.IH" il True
    have IH: "i + 1 \<le> k \<and> k < length x \<and> \<not> x ! k < x1 \<and> (\<forall>m. i + 1 \<le> m \<and> m < k \<longrightarrow> x ! m < x1) \<and>
        length buf' = length ?b \<and>
        (\<forall>m < length ?b. buf' ! m = (if i + 1 \<le> m \<and> m < k then f (x ! m) else ?b ! m))"
      by simp
    have a: "x ! m < x1" if "i \<le> m" "m < k" for m
      using that IH True by (cases "m = i") auto
    have b: "buf' ! m = (if i \<le> m \<and> m < k then f (x ! m) else buf ! m)" if "m < length buf" for m
      using that IH by (cases "m = i") auto
    show ?thesis using IH a b by auto
  next
    case False
    then show ?thesis using "1.prems" il by (auto simp: fill_while_lt.simps[of f x x1 buf i])
  qed
qed

lemma fill_while_lt_Inl:
  "fill_while_lt f x x1 buf i = Inl e \<Longrightarrow>
   e = IndexError \<and> (\<forall>m. i \<le> m \<and> m < length x \<longrightarrow> x ! m < x1)"
proof (induction f x x1 buf i rule: fill_while_lt.induct)
  case (1 f x x1 buf i)
  show ?case
  proof (cases "i < length x")
    case False
    then show ?thesis using "1.prems" by (simp add: fill_while_lt.simps[of f x x1 buf i])
  next
    case il: True
    then have lt: "x ! i < x1" and rec: "fill_while_lt f x x1 (buf[i := f (x ! i)]) (i + 1) = Inl e"
      using "1.prems" by (simp_all add: fill_while_lt.simps[of f x x1 buf i] split: if_splits)
    with "1.IH" il have IH: "e = IndexError \<and> (\<forall>m. i + 1 \<le> m \<and> m < length x \<longrightarrow> x ! m < x1)"
      by simp
    have "x ! m < x1" if "i \<le> m" "m < length x" for m
      using that IH lt by (cases "m = i") auto
    then show ?thesis using IH by auto
  qed
qed


lemma transition_into_Inr:
  assumes r: "transition_into buf x x0 x1 y0 y1 = Inr (y, i0, i1)" and l: "length buf = length x"
  shows "i0 \<le> i1 \<and> i1 < length x \<and> x0 < x ! i0 \<and> (\<forall>m < i0. x ! m \<le> x0) \<and>
         \<not> x ! i1 < x1 \<and> (\<forall>m. i0 \<le> m \<and> m < i1 \<longrightarrow> x ! m < x1) \<and>
         length y = length x \<and>
         (\<forall>m < length x. y ! m = (if m < i0 then y0
                                  else if m < i1 then transition_value x0 x1 y0 (y1 - y0) (x ! m)
                                  else y1))"
proof -
  from r obtain tr where
    s: "scan_le x x0 0 = Inr i0" and
    f: "fill_while_lt (transition_value x0 x1 y0 (y1 - y0)) x x1 (slice_assign buf 0 i0 y0) i0
        = Inr (tr, i1)" and
    y: "y = slice_assign tr i1 (length tr) y1"
    by (auto simp: transition_into_def Let_def split: sum.splits prod.splits)
  note S = scan_le_Inr[OF s]
  note F = fill_while_lt_Inr[OF f]
  have lt: "length tr = length x" using F l by (simp add: slice_assign_length)
  have "y ! m = (if m < i0 then y0
                 else if m < i1 then transition_value x0 x1 y0 (y1 - y0) (x ! m) else y1)"
    if "m < length x" for m
    using that F lt l by (auto simp: y slice_assign_nth slice_assign_length)
  then show ?thesis using S F lt by (simp add: y slice_assign_length)
qed

lemma transition_into_Inl:
  "transition_into buf x x0 x1 y0 y1 = Inl e \<Longrightarrow> e = IndexError"
  by (auto simp: transition_into_def Let_def split: sum.splits prod.splits
           dest: scan_le_Inl fill_while_lt_Inl)

lemma fill_while_lt_finds:
  assumes "i \<le> j" "j < length x" "\<not> x ! j < x1"
  shows "\<exists>b k. fill_while_lt f x x1 buf i = Inr (b, k)"
proof (cases "fill_while_lt f x x1 buf i")
  case (Inl e)
  then show ?thesis using fill_while_lt_Inl[OF Inl] assms by force
next
  case (Inr p)
  then show ?thesis by (cases p) blast
qed

lemma transition_into_returns:
  assumes "sorted x" "\<exists>j < length x. x0 < x ! j" "\<exists>j < length x. x1 \<le> x ! j"
  shows "\<exists>y i0 i1. transition_into buf x x0 x1 y0 y1 = Inr (y, i0, i1)"
proof -
  from assms(2) obtain i0 where s: "scan_le x x0 0 = Inr i0"
    using scan_le_finds[of 0 _ x x0] by auto
  note S = scan_le_Inr[OF s]
  from assms(3) obtain j where j: "j < length x" "x1 \<le> x ! j" by blast
  have "\<exists>j'. i0 \<le> j' \<and> j' < length x \<and> \<not> x ! j' < x1"
  proof (cases "i0 \<le> j")
    case True
    then show ?thesis using j by auto
  next
    case False
    then have "x ! j \<le> x ! i0" using assms(1) S by (simp add: sorted_iff_nth_mono)
    then show ?thesis using j S by (intro exI[of _ i0]) auto
  qed
  then obtain b i1 where
    "fill_while_lt (transition_value x0 x1 y0 (y1 - y0)) x x1 (slice_assign buf 0 i0 y0) i0
     = Inr (b, i1)"
    using fill_while_lt_finds by blast
  then show ?thesis using s by (simp add: transition_into_def Let_def)
qed





lemma maxexp_pos: "0 < maxexp"
  by (simp add: maxexp_def finfo_maxexp_def)

lemma maxexp_less: "maxexp < 1014"
proof -
  have "maxexp = ln 2 * 1013.76" by (simp add: maxexp_def finfo_maxexp_def)
  also have "\<dots> < 1 * 1013.76" using ln_2_less_1 by (intro mult_strict_right_mono) simp_all
  finally show ?thesis by simp
qed

lemma impl_returns:
  assumes "sorted x" "x0 < x1" "\<exists>j < length x. x1 \<le> x ! j"
  shows "\<exists>y i0 i1. transition_function_impl x x0 x1 y0 y1 = Inr (y, i0, i1)"
proof -
  from assms(3) obtain j where "j < length x" "x1 \<le> x ! j" by blast
  then have "\<exists>j < length x. x0 < x ! j" using assms(2) by (intro exI[of _ j]) simp
  then show ?thesis unfolding transition_function_impl_def
    using assms by (intro transition_into_returns) simp_all
qed



lemmas kernel_eval =
  transition_function_def transition_function_impl_def transition_into_def empty_like_def
  slice_assign_def scan_le.simps fill_while_lt.simps Let_def

lemma value_half: "transition_value 0 2 0 1 1 = 1/2"
  using maxexp_pos by (simp add: transition_value_def exponent_of_def Let_def)

lemma eval_012:
  "transition_function [0, 1, 2] 0 2 0 1 True = Inr (WithIndices [0, 1 / 2, 1] 1 2)"
  by (simp add: kernel_eval value_half)


lemma eval_012_False:
  "transition_function [0, 1, 2] 0 2 0 1 False = Inr (ArrayOnly [0, 1 / 2, 1])"
  by (simp add: kernel_eval value_half)


























section \<open>Verification: TransitionIntegrator\<close>

lemma transition_to_constant_frame:
  "take (length h) (fst (transition_to_constant I h f t t1 t2)) = h"
  by (auto simp: transition_to_constant_def alloc_def Let_def
           split: sum.splits transition_result.splits prod.splits)

lemma transition_to_constant_fresh:
  "snd (transition_to_constant I h f t t1 t2) = Inr a \<Longrightarrow>
   length h \<le> a \<and> a < length (fst (transition_to_constant I h f t t1 t2))"
  by (auto simp: transition_to_constant_def alloc_def Let_def
           split: sum.splits transition_result.splits prod.splits)

lemma transition_to_constant_steps:
  assumes "transition_function (h ! t) t1 t2 1 0 True = Inr (WithIndices tr i1 i2)"
    and "transition_function_derivative (h ! t) t1 t2 1 0 = Inr td"
    and "f < length h" "t < length h"
    and "multiply (h ! f) tr = Inr p"
    and "multiply (slice_of (h ! f) i1 i2) (slice_of td i1 i2) = Inr g"
    and "I g (slice_of (h ! t) i1 i2) = Inr r"
    and "isub_slice p i1 i2 r = Inr a"
    and "index_before a i2 = Inr v"
  shows "transition_to_constant I h f t t1 t2
         = (h @ [tr, td, slice_assign a i2 (length a) v], Inr (length h + 2))"
  using assms by (simp add: transition_to_constant_def alloc_def Let_def nth_append list_update_append)


lemma derivative_length:
  "transition_function_derivative x x0 x1 y0 y1 = Inr d \<Longrightarrow> length d = length x"
  by (auto simp: transition_function_derivative_def Let_def zeros_like_def
           split: sum.splits prod.splits dest: fill_while_lt_Inr)

lemma slice_of_length: "j \<le> length a \<Longrightarrow> length (slice_of a i j) = j - i"
  by (simp add: slice_of_def)

lemma isub_slice_Inr:
  "isub_slice a i j d = Inr b \<Longrightarrow>
   length b = length a \<and>
   (\<forall>k < length a. b ! k = (if i \<le> k \<and> k < j then a ! k - d ! (k - i) else a ! k))"
  by (auto simp: isub_slice_def split: if_splits)

lemma value_half_fall: "transition_value 0 2 1 (- 1) 1 = 1 / 2"
  using maxexp_pos by (simp add: transition_value_def exponent_of_def Let_def)

lemma derivative_value_mid: "derivative_value 0 2 (- 1) 1 = - 1"
  using maxexp_pos by (simp add: derivative_value_def Let_def power2_eq_square)

lemma eval_window:
  "transition_function [0, 1, 2, 3] 0 2 1 0 True = Inr (WithIndices [1, 1 / 2, 0, 0] 1 2)"
  by (simp add: kernel_eval value_half_fall)

lemma eval_window_dot:
  "transition_function_derivative [0, 1, 2, 3] 0 2 1 0 = Inr [0, - 1, 0, 0]"
  by (simp add: transition_function_derivative_def zeros_like_def scan_le.simps
        fill_while_lt.simps Let_def derivative_value_mid)

lemma eval_to_constant:
  "transition_to_constant (\<lambda>g ts. Inr (map (\<lambda>v. 0) g)) [[5, 6, 7, 8], [0, 1, 2, 3]] 0 1 0 2
   = ([[5, 6, 7, 8], [0, 1, 2, 3], [1, 1 / 2, 0, 0], [0, - 1, 0, 0], [5, 3, 3, 3]], Inr 4)"
  by (simp add: transition_to_constant_def eval_window eval_window_dot alloc_def multiply_def
        slice_of_def isub_slice_def index_before_def slice_assign_def Let_def)

text \<open>
  C10. Whatever its arguments, \<open>transition_to_constant\<close> leaves every array of the store it
  was given as it was, \<open>f\<close> and \<open>t\<close> among them, also when they are one array and also when
  it ends in an error; the array it returns is a new one. \<open>xor_timeseries\<close>, in contrast,
  changes the buffer it is given.
\<close>

theorem transition_to_constant_frame_condition:
  "take (length h) (fst (transition_to_constant I h f t t1 t2)) = h \<and>
   (f < length h \<longrightarrow> fst (transition_to_constant I h f t t1 t2) ! f = h ! f) \<and>
   (t < length h \<longrightarrow> fst (transition_to_constant I h f t t1 t2) ! t = h ! t) \<and>
   (\<forall>a. snd (transition_to_constant I h f t t1 t2) = Inr a \<longrightarrow>
        length h \<le> a \<and> a < length (fst (transition_to_constant I h f t t1 t2))) \<and>
   xor_timeseries [[1], [3]] \<noteq> [[1], [3]]"
proof -
  let ?h' = "fst (transition_to_constant I h f t t1 t2)"
  have fr: "take (length h) ?h' = h" by (rule transition_to_constant_frame)
  have old: "?h' ! a = h ! a" if "a < length h" for a
  proof -
    have "take (length h) ?h' ! a = ?h' ! a" using that by simp
    then show ?thesis using fr by simp
  qed
  have x: "xor_timeseries [[1], [3]] \<noteq> [[1], [3]]"
    by (simp add: xor_timeseries_def bitwise_xor_def)
  show ?thesis using fr old transition_to_constant_fresh[of I h f t t1 t2] x by blast
qed

theorem transition_to_constant_frame_condition_witness:
  "(0 :: nat) < length [[5, 6, 7, 8], [0, 1, 2, 3 :: real]] \<and>
   (1 :: nat) < length [[5, 6, 7, 8], [0, 1, 2, 3 :: real]] \<and>
   transition_to_constant (\<lambda>g ts. Inr (map (\<lambda>v. 0) g)) [[5, 6, 7, 8], [0, 1, 2, 3]] 0 1 0 2
   = ([[5, 6, 7, 8], [0, 1, 2, 3], [1, 1 / 2, 0, 0], [0, - 1, 0, 0], [5, 3, 3, 3]], Inr 4) \<and>
   [[5, 6, 7, 8], [0, 1, 2, 3], [1, 1 / 2, 0, 0], [0, - 1, 0, 0], [5, 3, 3, 3 :: real]] ! 0
     = [[5, 6, 7, 8], [0, 1, 2, 3]] ! 0 \<and>
   [[5, 6, 7, 8], [0, 1, 2, 3], [1, 1 / 2, 0, 0], [0, - 1, 0, 0], [5, 3, 3, 3 :: real]] ! 1
     = [[5, 6, 7, 8], [0, 1, 2, 3]] ! 1 \<and>
   length [[5, 6, 7, 8], [0, 1, 2, 3 :: real]] \<le> 4"
proof -
  let ?h = "[[5, 6, 7, 8], [0, 1, 2, 3]] :: store"
  let ?I = "(\<lambda>g ts. Inr (map (\<lambda>v. 0) g)) :: real list \<Rightarrow> real list \<Rightarrow> error + real list"
  let ?h' = "[[5, 6, 7, 8], [0, 1, 2, 3], [1, 1 / 2, 0, 0], [0, - 1, 0, 0], [5, 3, 3, 3]] :: store"
  have f: "0 < length ?h" and t: "1 < length ?h" by simp_all
  note fc = transition_to_constant_frame_condition[of ?h ?I 0 1 0 2]
  have e: "fst (transition_to_constant ?I ?h 0 1 0 2) = ?h'"
    "snd (transition_to_constant ?I ?h 0 1 0 2) = Inr 4"
    by (simp_all only: eval_to_constant fst_conv snd_conv)
  from fc f have a: "?h' ! 0 = ?h ! 0" unfolding e by blast
  from fc t have b: "?h' ! 1 = ?h ! 1" unfolding e by blast
  from fc have c: "length ?h \<le> 4" unfolding e by blast
  show ?thesis using a b c eval_to_constant by simp
qed


section \<open>Verification: the uninitialised buffer\<close>

lemma fill_while_lt_stop_unique:
  assumes "fill_while_lt f x x1 buf i = Inr (b, k)" "fill_while_lt f' x x1 buf' i = Inr (b', k')"
  shows "k' = k"
proof -
  from fill_while_lt_Inr[OF assms(1)]
  have F: "i \<le> k" "\<not> x ! k < x1" "\<forall>m. i \<le> m \<and> m < k \<longrightarrow> x ! m < x1" by simp_all
  from fill_while_lt_Inr[OF assms(2)]
  have F': "i \<le> k'" "\<not> x ! k' < x1" "\<forall>m. i \<le> m \<and> m < k' \<longrightarrow> x ! m < x1" by simp_all
  have "\<not> k' < k" using F(3) F'(1,2) by blast
  moreover have "\<not> k < k'" using F'(3) F(1,2) by blast
  ultimately show ?thesis by simp
qed

text \<open>
  The result of \<open>_transition_function\<close> does not depend on what the array from
  \<^verbatim>\<open>np.empty_like\<close> holds: every entry is written before the array is returned.
\<close>

lemma transition_into_buffer:
  assumes l: "length buf = length x" and l': "length buf' = length x"
    and r: "transition_into buf x x0 x1 y0 y1 = Inr (y, i0, i1)"
  shows "transition_into buf' x x0 x1 y0 y1 = Inr (y, i0, i1)"
proof -
  note T = transition_into_Inr[OF r l]
  from r obtain tr where
    s: "scan_le x x0 0 = Inr i0" and
    f: "fill_while_lt (transition_value x0 x1 y0 (y1 - y0)) x x1 (slice_assign buf 0 i0 y0) i0
        = Inr (tr, i1)"
    by (auto simp: transition_into_def Let_def split: sum.splits prod.splits)
  from fill_while_lt_Inr[OF f] have "i0 \<le> i1" "i1 < length x" "\<not> x ! i1 < x1" by simp_all
  then obtain b k where
    f': "fill_while_lt (transition_value x0 x1 y0 (y1 - y0)) x x1 (slice_assign buf' 0 i0 y0) i0
         = Inr (b, k)"
    using fill_while_lt_finds[of i0 i1 x x1] by blast
  have k: "k = i1" using f f' by (rule fill_while_lt_stop_unique)
  have r': "transition_into buf' x x0 x1 y0 y1 = Inr (slice_assign b k (length b) y1, i0, i1)"
    using s f' k by (simp add: transition_into_def Let_def)
  note T' = transition_into_Inr[OF r' l']
  have "slice_assign b k (length b) y1 = y" using T T' by (intro nth_equalityI) simp_all
  then show ?thesis using r' by simp
qed


lemma transition_into_buffer_eq:
  assumes "length buf = length x" "length buf' = length x"
  shows "transition_into buf x x0 x1 y0 y1 = transition_into buf' x x0 x1 y0 y1"
proof (cases "transition_into buf x x0 x1 y0 y1")
  case (Inr p)
  obtain y i0 i1 where "p = (y, i0, i1)" by (cases p)
  then show ?thesis using Inr transition_into_buffer[OF assms, of x0 x1 y0 y1 y i0 i1] by simp
next
  case (Inl e)
  show ?thesis
  proof (cases "transition_into buf' x x0 x1 y0 y1")
    case l: (Inl e')
    then show ?thesis using Inl transition_into_Inl[OF Inl] transition_into_Inl[OF l] by simp
  next
    case (Inr p)
    obtain y i0 i1 where "p = (y, i0, i1)" by (cases p)
    then show ?thesis
      using Inl Inr transition_into_buffer[OF assms(2,1), of x0 x1 y0 y1 y i0 i1] by simp
  qed
qed


section \<open>Verification: the window functions in double arithmetic\<close>

declare fill_while_lt_fp.simps [simp del]

lemma fill_while_lt_fp_Inr:
  "fill_while_lt_fp f x x1 buf i = Inr (buf', k) \<Longrightarrow>
   i \<le> k \<and> k < length x \<and> \<not> x ! k < x1 \<and> (\<forall>m. i \<le> m \<and> m < k \<longrightarrow> x ! m < x1) \<and>
   length buf' = length buf \<and>
   (\<forall>m. i \<le> m \<and> m < k \<longrightarrow> (\<exists>v. f (x ! m) = Inr v)) \<and>
   (\<forall>m < length buf. if i \<le> m \<and> m < k then f (x ! m) = Inr (buf' ! m) else buf' ! m = buf ! m)"
proof (induction f x x1 buf i rule: fill_while_lt_fp.induct)
  case (1 f x x1 buf i)
  have il: "i < length x"
    using "1.prems" by (simp add: fill_while_lt_fp.simps[of f x x1 buf i] split: if_splits)
  show ?case
  proof (cases "x ! i < x1")
    case True
    from "1.prems" True il obtain v where v: "f (x ! i) = Inr v"
      and rec: "fill_while_lt_fp f x x1 (buf[i := v]) (i + 1) = Inr (buf', k)"
      by (auto simp: fill_while_lt_fp.simps[of f x x1 buf i] split: sum.splits)
    let ?b = "buf[i := v]"
    from "1.IH"[OF _ True v rec] il
    have IH: "i + 1 \<le> k \<and> k < length x \<and> \<not> x ! k < x1 \<and> (\<forall>m. i + 1 \<le> m \<and> m < k \<longrightarrow> x ! m < x1) \<and>
        length buf' = length ?b \<and>
        (\<forall>m. i + 1 \<le> m \<and> m < k \<longrightarrow> (\<exists>v. f (x ! m) = Inr v)) \<and>
        (\<forall>m < length ?b. if i + 1 \<le> m \<and> m < k then f (x ! m) = Inr (buf' ! m) else buf' ! m = ?b ! m)"
      by simp
    have a: "x ! m < x1" if "i \<le> m" "m < k" for m
      using that IH True by (cases "m = i") auto
    have c: "\<exists>v. f (x ! m) = Inr v" if "i \<le> m" "m < k" for m
      using that IH v by (cases "m = i") auto
    have b: "if i \<le> m \<and> m < k then f (x ! m) = Inr (buf' ! m) else buf' ! m = buf ! m"
      if "m < length buf" for m
    proof (cases "m = i")
      case True
      have "\<not> (i + 1 \<le> i \<and> i < k)" by simp
      with IH that True have "buf' ! i = ?b ! i" by (metis length_list_update)
      then show ?thesis using True that v IH by simp
    next
      case False
      with IH that have "if i + 1 \<le> m \<and> m < k then f (x ! m) = Inr (buf' ! m) else buf' ! m = ?b ! m"
        by simp
      then show ?thesis using False by (auto split: if_splits)
    qed
    show ?thesis using IH a b c by auto
  next
    case False
    then show ?thesis using "1.prems" il by (auto simp: fill_while_lt_fp.simps[of f x x1 buf i])
  qed
qed

lemma fill_while_lt_fp_Inl:
  "fill_while_lt_fp f x x1 buf i = Inl e \<Longrightarrow>
   (e = IndexError \<and> (\<forall>m. i \<le> m \<and> m < length x \<longrightarrow> x ! m < x1 \<and> (\<exists>v. f (x ! m) = Inr v))) \<or>
   (\<exists>m. i \<le> m \<and> m < length x \<and> f (x ! m) = Inl e \<and> (\<forall>n. i \<le> n \<and> n \<le> m \<longrightarrow> x ! n < x1))"
proof (induction f x x1 buf i rule: fill_while_lt_fp.induct)
  case (1 f x x1 buf i)
  show ?case
  proof (cases "i < length x")
    case False
    then show ?thesis using "1.prems" by (auto simp: fill_while_lt_fp.simps[of f x x1 buf i])
  next
    case il: True
    then have lt: "x ! i < x1"
      using "1.prems" by (simp add: fill_while_lt_fp.simps[of f x x1 buf i] split: if_splits)
    show ?thesis
    proof (cases "f (x ! i)")
      case (Inl e')
      then have "e' = e" using "1.prems" il lt
        by (simp add: fill_while_lt_fp.simps[of f x x1 buf i])
      then have "i \<le> i \<and> i < length x \<and> f (x ! i) = Inl e \<and> (\<forall>n. i \<le> n \<and> n \<le> i \<longrightarrow> x ! n < x1)"
        using Inl il lt by auto
      then show ?thesis by blast
    next
      case (Inr v)
      then have rec: "fill_while_lt_fp f x x1 (buf[i := v]) (i + 1) = Inl e"
        using "1.prems" il lt by (simp add: fill_while_lt_fp.simps[of f x x1 buf i])
      from "1.IH"[OF _ lt Inr rec] il
      consider
        (a) "e = IndexError" "\<forall>m. i + 1 \<le> m \<and> m < length x \<longrightarrow> x ! m < x1 \<and> (\<exists>v. f (x ! m) = Inr v)"
      | (b) m where "i + 1 \<le> m" "m < length x" "f (x ! m) = Inl e" "\<forall>n. i + 1 \<le> n \<and> n \<le> m \<longrightarrow> x ! n < x1"
        by auto
      then show ?thesis
      proof cases
        case a
        have "x ! m < x1 \<and> (\<exists>v. f (x ! m) = Inr v)" if "i \<le> m" "m < length x" for m
          using that a(2) lt Inr by (cases "m = i") auto
        then show ?thesis using a(1) by blast
      next
        case b
        have "x ! n < x1" if "i \<le> n" "n \<le> m" for n
          using that b(4) lt by (cases "n = i") auto
        then have "i \<le> m \<and> m < length x \<and> f (x ! m) = Inl e \<and> (\<forall>n. i \<le> n \<and> n \<le> m \<longrightarrow> x ! n < x1)"
          using b by auto
        then show ?thesis by blast
      qed
    qed
  qed
qed

lemma fill_while_lt_fp_returns:
  assumes "i \<le> j" "j < length x" "\<not> x ! j < x1"
    and ok: "\<forall>m. i \<le> m \<and> m < length x \<and> x ! m < x1 \<longrightarrow> (\<exists>v. f (x ! m) = Inr v)"
  shows "\<exists>b k. fill_while_lt_fp f x x1 buf i = Inr (b, k)"
proof (cases "fill_while_lt_fp f x x1 buf i")
  case (Inl e)
  from fill_while_lt_fp_Inl[OF Inl] show ?thesis
  proof
    assume "e = IndexError \<and> (\<forall>m. i \<le> m \<and> m < length x \<longrightarrow> x ! m < x1 \<and> (\<exists>v. f (x ! m) = Inr v))"
    then show ?thesis using assms(1-3) by blast
  next
    assume "\<exists>m. i \<le> m \<and> m < length x \<and> f (x ! m) = Inl e \<and> (\<forall>n. i \<le> n \<and> n \<le> m \<longrightarrow> x ! n < x1)"
    then obtain m where m: "i \<le> m" "m < length x" "f (x ! m) = Inl e" "x ! m < x1" by auto
    with ok show ?thesis by force
  qed
next
  case (Inr p)
  then show ?thesis by (cases p) blast
qed

lemma fill_while_lt_fp_raises:
  assumes m: "i \<le> m" "m < length x" "\<forall>n. i \<le> n \<and> n \<le> m \<longrightarrow> x ! n < x1"
    and bad: "f (x ! m) = Inl E"
    and only: "\<forall>v e. f v = Inl e \<longrightarrow> e = E"
    and E: "E \<noteq> IndexError"
  shows "fill_while_lt_fp f x x1 buf i = Inl E"
proof (cases "fill_while_lt_fp f x x1 buf i")
  case (Inl e)
  from fill_while_lt_fp_Inl[OF Inl] show ?thesis
  proof
    assume "e = IndexError \<and> (\<forall>m. i \<le> m \<and> m < length x \<longrightarrow> x ! m < x1 \<and> (\<exists>v. f (x ! m) = Inr v))"
    then have "\<exists>v. f (x ! m) = Inr v" using m by blast
    then show ?thesis using bad by simp
  next
    assume "\<exists>m. i \<le> m \<and> m < length x \<and> f (x ! m) = Inl e \<and> (\<forall>n. i \<le> n \<and> n \<le> m \<longrightarrow> x ! n < x1)"
    then obtain n where "f (x ! n) = Inl e" by blast
    then have "e = E" using only by blast
    then show ?thesis using Inl by simp
  qed
next
  case (Inr p)
  obtain b k where p: "p = (b, k)" by (cases p)
  note F = fill_while_lt_fp_Inr[OF Inr[unfolded p]]
  have "\<not> k \<le> m" using F m(3) by auto
  then have "m < k" by simp
  then have "\<exists>v. f (x ! m) = Inr v" using F m(1) by blast
  then show ?thesis using bad by simp
qed

text \<open>The body of the loop of \<open>_transition_function\<close>: what it returns and when it raises.\<close>

lemma transition_value_fp_eq:
  "transition_value_fp A x0 x1 y0 ydiff xi =
     (let tau = fquot A (fsub A (Finite xi) (Finite x0)) (fsub A (Finite x1) (Finite x0));
          exponent = fsub A (fquot A (Finite 1) tau) (fquot A (Finite 1) (fsub A (Finite 1) tau))
      in if fsub A (Finite x1) (Finite x0) = Finite 0 \<or> tau = Finite 0 \<or> fsub A (Finite 1) tau = Finite 0
         then Inl ZeroDivisionError
         else if dle (fmaxexp A) exponent then Inr y0
         else if fadd A (Finite 1) (fexp A exponent) = Finite 0 then Inl ZeroDivisionError
         else Inr (fadd A y0 (fquot A ydiff (fadd A (Finite 1) (fexp A exponent)))))"
  by (simp add: transition_value_fp_def tau_fp_def exponent_fp_def fdiv_def Let_def)

lemma transition_value_fp_Inl:
  "transition_value_fp A x0 x1 y0 ydiff xi = Inl e \<Longrightarrow> e = ZeroDivisionError"
  by (auto simp: transition_value_fp_eq Let_def split: if_splits)

lemma derivative_value_fp_Inl:
  "derivative_value_fp A x0 x1 ydiff xi = Inl e \<Longrightarrow> e = ZeroDivisionError"
  by (auto simp: derivative_value_fp_def tau_fp_def exponent_fp_def fdiv_def Let_def
           split: if_splits sum.splits)

lemma transition_into_fp_Inr:
  assumes r: "transition_into_fp A buf x x0 x1 y0 y1 = Inr (y, i0, i1)" and l: "length buf = length x"
  shows "i0 \<le> i1 \<and> i1 < length x \<and> x0 < x ! i0 \<and> (\<forall>m < i0. x ! m \<le> x0) \<and>
         \<not> x ! i1 < x1 \<and> (\<forall>m. i0 \<le> m \<and> m < i1 \<longrightarrow> x ! m < x1) \<and>
         length y = length x \<and>
         (\<forall>m < length x. if m < i0 then y ! m = y0
                          else if m < i1
                            then transition_value_fp A x0 x1 y0 (fsub A y1 y0) (x ! m) = Inr (y ! m)
                            else y ! m = y1)"
proof -
  from r obtain tr where
    s: "scan_le x x0 0 = Inr i0" and
    f: "fill_while_lt_fp (transition_value_fp A x0 x1 y0 (fsub A y1 y0)) x x1 (slice_assign buf 0 i0 y0) i0
        = Inr (tr, i1)" and
    y: "y = slice_assign tr i1 (length tr) y1"
    by (auto simp: transition_into_fp_def Let_def split: sum.splits prod.splits)
  note S = scan_le_Inr[OF s]
  note F = fill_while_lt_fp_Inr[OF f]
  have lt: "length tr = length x" using F l by (simp add: slice_assign_length)
  have "if m < i0 then y ! m = y0
        else if m < i1
          then transition_value_fp A x0 x1 y0 (fsub A y1 y0) (x ! m) = Inr (y ! m)
          else y ! m = y1"
    if m: "m < length x" for m
  proof -
    have *: "if i0 \<le> m \<and> m < i1
             then transition_value_fp A x0 x1 y0 (fsub A y1 y0) (x ! m) = Inr (tr ! m)
             else tr ! m = slice_assign buf 0 i0 y0 ! m"
      using F m l by (simp add: slice_assign_length)
    show ?thesis
    proof (cases "m < i0")
      case True
      then have "m < i1" using F by simp
      then show ?thesis using * True m l lt by (simp add: y slice_assign_nth)
    next
      case False
      then show ?thesis using * m l lt F by (auto simp: y slice_assign_nth)
    qed
  qed
  then have pw: "\<forall>m < length x. if m < i0 then y ! m = y0
        else if m < i1
          then transition_value_fp A x0 x1 y0 (fsub A y1 y0) (x ! m) = Inr (y ! m)
          else y ! m = y1"
    by blast
  have ly: "length y = length x" using lt by (simp add: y slice_assign_length)
  have a: "i0 \<le> i1 \<and> i1 < length x \<and> x0 < x ! i0 \<and> (\<forall>m < i0. x ! m \<le> x0) \<and>
         \<not> x ! i1 < x1 \<and> (\<forall>m. i0 \<le> m \<and> m < i1 \<longrightarrow> x ! m < x1)"
    using S F by simp
  show ?thesis using a ly pw by blast
qed

lemma transition_into_fp_Inl:
  "transition_into_fp A buf x x0 x1 y0 y1 = Inl e \<Longrightarrow> e = IndexError \<or> e = ZeroDivisionError"
  by (auto simp: transition_into_fp_def Let_def split: sum.splits prod.splits
           dest!: scan_le_Inl fill_while_lt_fp_Inl transition_value_fp_Inl)

lemma sorted_first_indices:
  assumes srt: "sorted x" and m: "m < length x"
    and i0: "i0 < length x" "x0 < x ! i0" "\<forall>n < i0. x ! n \<le> x0"
  shows "m < i0 \<longleftrightarrow> x ! m \<le> x0"
proof
  assume "m < i0" then show "x ! m \<le> x0" using i0 by simp
next
  assume le: "x ! m \<le> x0"
  show "m < i0"
  proof (rule ccontr)
    assume "\<not> m < i0"
    then have "x ! i0 \<le> x ! m" using srt m by (simp add: sorted_iff_nth_mono)
    then show False using i0 le by simp
  qed
qed

lemma sorted_stop_indices:
  assumes srt: "sorted x" and m: "m < length x" "i0 \<le> m"
    and i1: "i1 < length x" "\<not> x ! i1 < x1" "\<forall>n. i0 \<le> n \<and> n < i1 \<longrightarrow> x ! n < x1"
  shows "m < i1 \<longleftrightarrow> x ! m < x1"
proof
  assume "m < i1" then show "x ! m < x1" using i1 m by simp
next
  assume lt: "x ! m < x1"
  show "m < i1"
  proof (rule ccontr)
    assume "\<not> m < i1"
    then have "x ! i1 \<le> x ! m" using srt m by (simp add: sorted_iff_nth_mono)
    then show False using i1 lt by simp
  qed
qed

lemma transition_into_fp_pointwise:
  assumes r: "transition_into_fp A buf x x0 x1 y0 y1 = Inr (y, i0, i1)" and l: "length buf = length x"
    and srt: "sorted x" and m: "m < length x"
  shows "if x ! m \<le> x0 then y ! m = y0
         else if x ! m < x1
           then transition_value_fp A x0 x1 y0 (fsub A y1 y0) (x ! m) = Inr (y ! m)
           else y ! m = y1"
proof -
  note T = transition_into_fp_Inr[OF r l]
  have i0l: "i0 < length x" using T by simp
  have a: "m < i0 \<longleftrightarrow> x ! m \<le> x0"
    using srt m i0l T by (intro sorted_first_indices) simp_all
  have b: "m < i1 \<longleftrightarrow> x ! m < x1" if "i0 \<le> m"
    using srt m that T by (intro sorted_stop_indices[of x m i0 i1 x1]) simp_all
  have *: "if m < i0 then y ! m = y0
           else if m < i1
             then transition_value_fp A x0 x1 y0 (fsub A y1 y0) (x ! m) = Inr (y ! m)
             else y ! m = y1"
    using T m by simp
  show ?thesis
  proof (cases "m < i0")
    case True
    then show ?thesis using * a by simp
  next
    case False
    then have "i0 \<le> m" by simp
    from b[OF this] False a * show ?thesis by simp
  qed
qed

lemma scan_then_stop:
  assumes "sorted x" "scan_le x x0 0 = Inr i0" "\<exists>j < length x. x1 \<le> x ! j"
  shows "\<exists>j'. i0 \<le> j' \<and> j' < length x \<and> \<not> x ! j' < x1"
proof -
  note S = scan_le_Inr[OF assms(2)]
  from assms(3) obtain j where j: "j < length x" "x1 \<le> x ! j" by blast
  show ?thesis
  proof (cases "i0 \<le> j")
    case True
    then show ?thesis using j by auto
  next
    case False
    then have "x ! j \<le> x ! i0" using assms(1) S by (simp add: sorted_iff_nth_mono)
    then show ?thesis using j S by (intro exI[of _ i0]) auto
  qed
qed

lemma transition_into_fp_returns:
  assumes "sorted x" "x0 < x1" "\<exists>j < length x. x1 \<le> x ! j"
    and ok: "\<forall>k < length x. x0 < x ! k \<and> x ! k < x1 \<longrightarrow>
               (\<exists>v. transition_value_fp A x0 x1 y0 (fsub A y1 y0) (x ! k) = Inr v)"
  shows "\<exists>y i0 i1. transition_into_fp A buf x x0 x1 y0 y1 = Inr (y, i0, i1)"
proof -
  from assms(3) obtain j where j: "j < length x" "x1 \<le> x ! j" by blast
  then have "x0 < x ! j" using assms(2) by simp
  then obtain i0 where s: "scan_le x x0 0 = Inr i0"
    using scan_le_finds[of 0 j x x0] j by auto
  note S = scan_le_Inr[OF s]
  from scan_then_stop[OF assms(1) s assms(3)] obtain j' where
    j': "i0 \<le> j'" "j' < length x" "\<not> x ! j' < x1" by blast
  have "\<exists>v. transition_value_fp A x0 x1 y0 (fsub A y1 y0) (x ! m) = Inr v"
    if "i0 \<le> m" "m < length x" "x ! m < x1" for m
  proof -
    have "x ! i0 \<le> x ! m" using assms(1) that by (simp add: sorted_iff_nth_mono)
    then have "x0 < x ! m" using S by simp
    then show ?thesis using ok that by blast
  qed
  then have "\<forall>m. i0 \<le> m \<and> m < length x \<and> x ! m < x1 \<longrightarrow>
               (\<exists>v. transition_value_fp A x0 x1 y0 (fsub A y1 y0) (x ! m) = Inr v)"
    by blast
  from fill_while_lt_fp_returns[OF j' this] obtain b i1 where
    "fill_while_lt_fp (transition_value_fp A x0 x1 y0 (fsub A y1 y0)) x x1 (slice_assign buf 0 i0 y0) i0
     = Inr (b, i1)"
    by blast
  then show ?thesis using s by (simp add: transition_into_fp_def Let_def)
qed


lemma impl_fp_returns:
  assumes "sorted x" "x0 < x1" "\<exists>j < length x. x1 \<le> x ! j"
    and "\<forall>k < length x. x0 < x ! k \<and> x ! k < x1 \<longrightarrow>
               (\<exists>v. transition_value_fp A x0 x1 y0 (fsub A y1 y0) (x ! k) = Inr v)"
  shows "\<exists>y i0 i1. transition_function_impl_fp A x x0 x1 y0 y1 = Inr (y, i0, i1)"
  unfolding transition_function_impl_fp_def using assms by (rule transition_into_fp_returns)

lemma impl_fp_pointwise:
  assumes "transition_function_impl_fp A x x0 x1 y0 y1 = Inr (y, i0, i1)" "sorted x" "m < length x"
  shows "if x ! m \<le> x0 then y ! m = y0
         else if x ! m < x1
           then transition_value_fp A x0 x1 y0 (fsub A y1 y0) (x ! m) = Inr (y ! m)
           else y ! m = y1"
  using transition_into_fp_pointwise[of A "empty_like_fp x" x x0 x1 y0 y1 y i0 i1 m] assms
  by (simp add: transition_function_impl_fp_def empty_like_fp_def)

lemma impl_fp_Inr:
  assumes "transition_function_impl_fp A x x0 x1 y0 y1 = Inr (y, i0, i1)"
  shows "i0 \<le> i1 \<and> i1 < length x \<and> x0 < x ! i0 \<and> (\<forall>m < i0. x ! m \<le> x0) \<and>
         \<not> x ! i1 < x1 \<and> (\<forall>m. i0 \<le> m \<and> m < i1 \<longrightarrow> x ! m < x1) \<and> length y = length x"
  using transition_into_fp_Inr[of A "empty_like_fp x" x x0 x1 y0 y1 y i0 i1] assms
  by (simp add: transition_function_impl_fp_def empty_like_fp_def)

text \<open>
  C2, as amended. Let \<open>x\<close> be a sorted grid with a sample at or beyond \<open>x1\<close>, and \<open>x0 < x1\<close>.
  If at no sample strictly between the boundaries a divisor of lines 20 to 25 (\<open>x1 - x0\<close>,
  \<open>\<tau>\<close>, \<open>1 - \<tau>\<close> and, when the exponent is not clamped, \<open>1 + exp(exponent)\<close>) computes
  to zero, then \<open>transition_function\<close> returns an array \<open>y\<close> as long as \<open>x\<close> with
  \<open>y[k] = y0\<close> where \<open>x[k] \<le> x0\<close>, \<open>y[k] = y1\<close> where \<open>x[k] \<ge> x1\<close>, and in between
  \<open>y[k] = y0\<close> when \<^verbatim>\<open>exponent >= maxexp\<close> and
  \<open>y[k] = y0 + (y1 - y0) / (1 + exp (1/\<tau> - 1/(1 - \<tau>)))\<close> otherwise, every operation being
  that of the doubles; \<open>i0\<close> is the first index with \<open>x > x0\<close> and \<open>i1\<close> the first index with
  \<open>x \<ge> x1\<close>.
\<close>

theorem transition_function_doubles:
  assumes srt: "sorted x" and lt: "x0 < x1" and hi: "\<exists>j < length x. x1 \<le> x ! j"
    and nz: "\<forall>k < length x. x0 < x ! k \<and> x ! k < x1 \<longrightarrow>
       (let tau = fquot A (fsub A (Finite (x ! k)) (Finite x0)) (fsub A (Finite x1) (Finite x0));
            exponent = fsub A (fquot A (Finite 1) tau) (fquot A (Finite 1) (fsub A (Finite 1) tau))
        in fsub A (Finite x1) (Finite x0) \<noteq> Finite 0 \<and> tau \<noteq> Finite 0 \<and>
           fsub A (Finite 1) tau \<noteq> Finite 0 \<and>
           (dle (fmaxexp A) exponent \<or> fadd A (Finite 1) (fexp A exponent) \<noteq> Finite 0))"
  shows "\<exists>y i0 i1.
           transition_function_fp A x x0 x1 y0 y1 True = Inr (WithIndices_fp y i0 i1) \<and>
           transition_function_fp A x x0 x1 y0 y1 False = Inr (ArrayOnly_fp y) \<and>
           length y = length x \<and>
           (\<forall>k < length x.
              (x ! k \<le> x0 \<longrightarrow> y ! k = y0) \<and>
              (x1 \<le> x ! k \<longrightarrow> y ! k = y1) \<and>
              (x0 < x ! k \<and> x ! k < x1 \<longrightarrow>
                 (let tau = fquot A (fsub A (Finite (x ! k)) (Finite x0))
                                    (fsub A (Finite x1) (Finite x0));
                      exponent = fsub A (fquot A (Finite 1) tau)
                                        (fquot A (Finite 1) (fsub A (Finite 1) tau))
                  in y ! k = (if dle (fmaxexp A) exponent then y0
                              else fadd A y0 (fquot A (fsub A y1 y0)
                                                      (fadd A (Finite 1) (fexp A exponent))))))) \<and>
           i0 < length x \<and> x0 < x ! i0 \<and> (\<forall>m < i0. \<not> x0 < x ! m) \<and>
           i1 < length x \<and> x1 \<le> x ! i1 \<and> (\<forall>m < i1. \<not> x1 \<le> x ! m)"
proof -
  let ?v = "\<lambda>k. (let tau = fquot A (fsub A (Finite (x ! k)) (Finite x0))
                                    (fsub A (Finite x1) (Finite x0));
                      exponent = fsub A (fquot A (Finite 1) tau)
                                        (fquot A (Finite 1) (fsub A (Finite 1) tau))
                  in (if dle (fmaxexp A) exponent then y0
                      else fadd A y0 (fquot A (fsub A y1 y0)
                                              (fadd A (Finite 1) (fexp A exponent)))))"
  have val: "transition_value_fp A x0 x1 y0 (fsub A y1 y0) (x ! k) = Inr (?v k)"
    if "k < length x" "x0 < x ! k" "x ! k < x1" for k
    using nz[rule_format, of k] that by (auto simp: transition_value_fp_eq Let_def)
  then have "\<forall>k < length x. x0 < x ! k \<and> x ! k < x1 \<longrightarrow>
               (\<exists>v. transition_value_fp A x0 x1 y0 (fsub A y1 y0) (x ! k) = Inr v)"
    by blast
  from impl_fp_returns[OF srt lt hi this] obtain y i0 i1 where
    r: "transition_function_impl_fp A x x0 x1 y0 y1 = Inr (y, i0, i1)" by blast
  note I = impl_fp_Inr[OF r]
  have pw: "if x ! k \<le> x0 then y ! k = y0
            else if x ! k < x1
              then transition_value_fp A x0 x1 y0 (fsub A y1 y0) (x ! k) = Inr (y ! k)
              else y ! k = y1" if "k < length x" for k
    using r srt that by (rule impl_fp_pointwise)
  have first1: "\<not> x1 \<le> x ! m" if "m < i1" for m
  proof (cases "m < i0")
    case True
    then have "x ! m \<le> x0" using I by simp
    then show ?thesis using lt by simp
  next
    case False
    then show ?thesis using I that by (simp add: not_le)
  qed
  have a: "transition_function_fp A x x0 x1 y0 y1 True = Inr (WithIndices_fp y i0 i1)"
    "transition_function_fp A x x0 x1 y0 y1 False = Inr (ArrayOnly_fp y)"
    by (simp_all add: transition_function_fp_def r)
  have b: "(x ! k \<le> x0 \<longrightarrow> y ! k = y0) \<and> (x1 \<le> x ! k \<longrightarrow> y ! k = y1) \<and>
           (x0 < x ! k \<and> x ! k < x1 \<longrightarrow> y ! k = ?v k)" if k: "k < length x" for k
  proof (intro conjI impI)
    assume "x ! k \<le> x0" then show "y ! k = y0" using pw[OF k] by simp
  next
    assume "x1 \<le> x ! k" then show "y ! k = y1" using pw[OF k] lt by simp
  next
    assume i: "x0 < x ! k \<and> x ! k < x1"
    then have "transition_value_fp A x0 x1 y0 (fsub A y1 y0) (x ! k) = Inr (y ! k)"
      using pw[OF k] by simp
    then show "y ! k = ?v k" using val[OF k] i by simp
  qed
  have c: "i0 < length x \<and> x0 < x ! i0 \<and> (\<forall>m < i0. \<not> x0 < x ! m)"
    using I by (auto simp: not_less)
  have d: "i1 < length x \<and> x1 \<le> x ! i1" using I by (simp add: not_less)
  have e: "length y = length x" using I by simp
  have b': "\<forall>k < length x.
              (x ! k \<le> x0 \<longrightarrow> y ! k = y0) \<and>
              (x1 \<le> x ! k \<longrightarrow> y ! k = y1) \<and>
              (x0 < x ! k \<and> x ! k < x1 \<longrightarrow>
                 (let tau = fquot A (fsub A (Finite (x ! k)) (Finite x0))
                                    (fsub A (Finite x1) (Finite x0));
                      exponent = fsub A (fquot A (Finite 1) tau)
                                        (fquot A (Finite 1) (fsub A (Finite 1) tau))
                  in y ! k = (if dle (fmaxexp A) exponent then y0
                              else fadd A y0 (fquot A (fsub A y1 y0)
                                                      (fadd A (Finite 1) (fexp A exponent))))))"
    using b unfolding Let_def by blast
  show ?thesis using a b' c d e first1 by blast
qed

text \<open>
  C5: the failing input. When at some sample strictly between the boundaries \<open>\<tau>\<close> or
  \<open>1 - \<tau>\<close> computes to zero, \<open>transition_function\<close> raises \<open>ZeroDivisionError\<close>: line 21
  divides before line 22 tests the exponent.
\<close>

theorem transition_function_raises:
  assumes srt: "sorted x"
    and z: "\<exists>k < length x. x0 < x ! k \<and> x ! k < x1 \<and>
              (fquot A (fsub A (Finite (x ! k)) (Finite x0)) (fsub A (Finite x1) (Finite x0)) = Finite 0 \<or>
               fsub A (Finite 1) (fquot A (fsub A (Finite (x ! k)) (Finite x0))
                                          (fsub A (Finite x1) (Finite x0))) = Finite 0)"
  shows "transition_function_fp A x x0 x1 y0 y1 True = Inl ZeroDivisionError \<and>
         transition_function_fp A x x0 x1 y0 y1 False = Inl ZeroDivisionError"
proof -
  let ?f = "transition_value_fp A x0 x1 y0 (fsub A y1 y0)"
  from z obtain k where k: "k < length x" "x0 < x ! k" "x ! k < x1"
    and zero: "fquot A (fsub A (Finite (x ! k)) (Finite x0)) (fsub A (Finite x1) (Finite x0)) = Finite 0 \<or>
               fsub A (Finite 1) (fquot A (fsub A (Finite (x ! k)) (Finite x0))
                                          (fsub A (Finite x1) (Finite x0))) = Finite 0"
    by blast
  have bad: "?f (x ! k) = Inl ZeroDivisionError"
    using zero by (auto simp: transition_value_fp_eq Let_def)
  obtain i0 where s: "scan_le x x0 0 = Inr i0"
    using scan_le_finds[of 0 k x x0] k by auto
  note S = scan_le_Inr[OF s]
  have i0k: "i0 \<le> k"
  proof (rule ccontr)
    assume "\<not> i0 \<le> k"
    then have "x ! k \<le> x0" using S by simp
    then show False using k by simp
  qed
  have below: "\<forall>n. i0 \<le> n \<and> n \<le> k \<longrightarrow> x ! n < x1"
  proof (intro allI impI)
    fix n assume "i0 \<le> n \<and> n \<le> k"
    then have "x ! n \<le> x ! k" using srt k by (simp add: sorted_iff_nth_mono)
    then show "x ! n < x1" using k by simp
  qed
  have only: "\<forall>v e. ?f v = Inl e \<longrightarrow> e = ZeroDivisionError"
    using transition_value_fp_Inl by blast
  have "fill_while_lt_fp ?f x x1 (slice_assign (empty_like_fp x) 0 i0 y0) i0 = Inl ZeroDivisionError"
    using i0k k(1) below bad only by (rule fill_while_lt_fp_raises) simp
  then have "transition_function_impl_fp A x x0 x1 y0 y1 = Inl ZeroDivisionError"
    using s by (simp add: transition_function_impl_fp_def transition_into_fp_def Let_def)
  then show ?thesis by (simp add: transition_function_fp_def)
qed


subsection \<open>Examples in exact arithmetic\<close>

lemma exact_simps:
  "fsub exact = lift2 (-)" "fadd exact = lift2 (+)" "fmul exact = lift2 (*)"
  "fquot exact = lift2 (/)" "fsquare exact = (\<lambda>a. lift2 (*) a a)" "fexp exact = exp_exact"
  "fmaxexp exact = Finite maxexp"
  by (simp_all add: exact_def)

lemma underflowing_simps:
  "fsub underflowing = lift2 (-)" "fadd underflowing = lift2 (+)"
  "fquot underflowing = (\<lambda>a b. flush (lift2 (/) a b))"
  by (simp_all add: underflowing_def exact_def)

lemmas kernel_fp_eval =
  transition_function_fp_def transition_function_impl_fp_def transition_into_fp_def
  empty_like_fp_def slice_assign_def scan_le.simps fill_while_lt_fp.simps Let_def

lemma value_fp_half: "transition_value_fp exact 0 2 (Finite 0) (Finite 1) 1 = Inr (Finite (1 / 2))"
  using maxexp_pos by (simp add: transition_value_fp_eq exact_simps Let_def)

lemma eval_fp_012:
  "transition_function_fp exact [0, 1, 2] 0 2 (Finite 0) (Finite 1) True
   = Inr (WithIndices_fp [Finite 0, Finite (1 / 2), Finite 1] 1 2)"
  by (simp add: kernel_fp_eval exact_simps(1) value_fp_half)

lemma eval_fp_012_False:
  "transition_function_fp exact [0, 1, 2] 0 2 (Finite 0) (Finite 1) False
   = Inr (ArrayOnly_fp [Finite 0, Finite (1 / 2), Finite 1])"
  by (simp add: kernel_fp_eval exact_simps(1) value_fp_half)

lemma exp_double_bound:
  fixes y :: real
  assumes "0 \<le> a" "a \<le> exp y" "b \<le> a * a"
  shows "b \<le> exp (2 * y)"
proof -
  have "a * a \<le> exp y * exp y" using assms(1,2) by (intro mult_mono) simp_all
  also have "\<dots> = exp (2 * y)" by (simp add: exp_add[symmetric])
  finally show ?thesis using assms(3) by simp
qed

lemma ln2_less: "ln (2 :: real) < 6934 / 10000"
proof -
  let ?x = "6934 / 160000 :: real"
  have "1 + ?x + ?x\<^sup>2 / 2 \<le> exp ?x" by (rule exp_lower_Taylor_quadratic) simp
  moreover have "(1044276569 / 1000000000 :: real) \<le> 1 + ?x + ?x\<^sup>2 / 2"
    by (simp add: power2_eq_square)
  ultimately have 1: "(1044276569 / 1000000000 :: real) \<le> exp ?x" by (rule order_trans[rotated])
  have 2: "(1090513552 / 1000000000 :: real) \<le> exp (2 * ?x)"
    by (rule exp_double_bound[OF _ 1]) simp_all
  have 3: "(1189219807 / 1000000000 :: real) \<le> exp (2 * (2 * ?x))"
    by (rule exp_double_bound[OF _ 2]) simp_all
  have 4: "(1414243749 / 1000000000 :: real) \<le> exp (2 * (2 * (2 * ?x)))"
    by (rule exp_double_bound[OF _ 3]) simp_all
  have 5: "(2000085381 / 1000000000 :: real) \<le> exp (2 * (2 * (2 * (2 * ?x))))"
    by (rule exp_double_bound[OF _ 4]) simp_all
  have "2 * (2 * (2 * (2 * ?x))) = 6934 / 10000" by simp
  then have "(2000085381 / 1000000000 :: real) \<le> exp (6934 / 10000)" using 5 by simp
  then have "exp (ln 2) < exp (6934 / 10000 :: real)" by simp
  then show ?thesis by (simp only: exp_less_cancel_iff)
qed

lemma maxexp_below_703: "maxexp < 703 - 1 / 703"
proof -
  have "maxexp = ln 2 * 1013.76" by (simp add: maxexp_def finfo_maxexp_def)
  also have "\<dots> < (6934 / 10000) * 1013.76" using ln2_less by (intro mult_strict_right_mono) simp_all
  also have "\<dots> < 703 - 1 / 703" by simp
  finally show ?thesis .
qed

lemma value_fp_clamped: "transition_value_fp exact 0 704 (Finite 0) (Finite 1) 1 = Inr (Finite 0)"
proof -
  have "(704 :: real) - 704 / 703 = 703 - 1 / 703" by simp
  then have "maxexp \<le> 704 - 704 / 703" using maxexp_below_703 by simp
  then show ?thesis by (simp add: transition_value_fp_eq exact_simps Let_def)
qed

lemma eval_fp_clamped:
  "transition_function_fp exact [0, 1, 704] 0 704 (Finite 0) (Finite 1) True
   = Inr (WithIndices_fp [Finite 0, Finite 0, Finite 1] 1 2)"
  by (simp add: kernel_fp_eval exact_simps(1) value_fp_clamped)


theorem transition_function_doubles_witness:
  "sorted [0, 1, 2 :: real] \<and> (0 :: real) < 2 \<and> (2 :: real) \<le> [0, 1, 2] ! 2 \<and>
   fsub exact (Finite 2) (Finite 0) \<noteq> Finite 0 \<and>
   fquot exact (fsub exact (Finite ([0, 1, 2] ! 1)) (Finite 0)) (fsub exact (Finite 2) (Finite 0))
     \<noteq> Finite 0 \<and>
   fsub exact (Finite 1)
     (fquot exact (fsub exact (Finite ([0, 1, 2] ! 1)) (Finite 0)) (fsub exact (Finite 2) (Finite 0)))
     \<noteq> Finite 0 \<and>
   transition_function_fp exact [0, 1, 2] 0 2 (Finite 0) (Finite 1) True
     = Inr (WithIndices_fp [Finite 0, Finite (1 / 2), Finite 1] 1 2) \<and>
   transition_function_fp exact [0, 1, 2] 0 2 (Finite 0) (Finite 1) False
     = Inr (ArrayOnly_fp [Finite 0, Finite (1 / 2), Finite 1]) \<and>
   [Finite 0, Finite (1 / 2), Finite 1] ! 1
     = fadd exact (Finite 0)
         (fquot exact (fsub exact (Finite 1) (Finite 0))
            (fadd exact (Finite 1)
               (fexp exact
                  (fsub exact
                     (fquot exact (Finite 1)
                        (fquot exact (fsub exact (Finite ([0, 1, 2] ! 1)) (Finite 0))
                                     (fsub exact (Finite 2) (Finite 0))))
                     (fquot exact (Finite 1)
                        (fsub exact (Finite 1)
                           (fquot exact (fsub exact (Finite ([0, 1, 2] ! 1)) (Finite 0))
                                        (fsub exact (Finite 2) (Finite 0)))))))))"
proof -
  let ?x = "[0, 1, 2] :: real list"
  have s: "sorted ?x" by simp
  have o: "(0 :: real) < 2" by simp
  have e: "\<exists>j < length ?x. 2 \<le> ?x ! j" by (intro exI[of _ 2]) simp
  have nz: "\<forall>k < length ?x. 0 < ?x ! k \<and> ?x ! k < 2 \<longrightarrow>
       (let tau = fquot exact (fsub exact (Finite (?x ! k)) (Finite 0)) (fsub exact (Finite 2) (Finite 0));
            exponent = fsub exact (fquot exact (Finite 1) tau)
                                  (fquot exact (Finite 1) (fsub exact (Finite 1) tau))
        in fsub exact (Finite 2) (Finite 0) \<noteq> Finite 0 \<and> tau \<noteq> Finite 0 \<and>
           fsub exact (Finite 1) tau \<noteq> Finite 0 \<and>
           (dle (fmaxexp exact) exponent \<or> fadd exact (Finite 1) (fexp exact exponent) \<noteq> Finite 0))"
    by (simp add: exact_simps Let_def All_less_Suc numeral_3_eq_3)
  from transition_function_doubles[OF s o e nz, of "Finite 0" "Finite 1"] obtain y i0 i1 where
    t: "transition_function_fp exact ?x 0 2 (Finite 0) (Finite 1) True = Inr (WithIndices_fp y i0 i1)" and
    k: "\<forall>k < length ?x.
          (?x ! k \<le> 0 \<longrightarrow> y ! k = Finite 0) \<and>
          (2 \<le> ?x ! k \<longrightarrow> y ! k = Finite 1) \<and>
          (0 < ?x ! k \<and> ?x ! k < 2 \<longrightarrow>
             (let tau = fquot exact (fsub exact (Finite (?x ! k)) (Finite 0))
                                    (fsub exact (Finite 2) (Finite 0));
                  exponent = fsub exact (fquot exact (Finite 1) tau)
                                        (fquot exact (Finite 1) (fsub exact (Finite 1) tau))
              in y ! k = (if dle (fmaxexp exact) exponent then Finite 0
                          else fadd exact (Finite 0)
                                 (fquot exact (fsub exact (Finite 1) (Finite 0))
                                              (fadd exact (Finite 1) (fexp exact exponent))))))"
    by blast
  have y: "y = [Finite 0, Finite (1 / 2), Finite 1]" using t eval_fp_012 by simp
  have "(1 :: nat) < length ?x \<and> 0 < ?x ! 1 \<and> ?x ! 1 < 2" by simp
  with k have "let tau = fquot exact (fsub exact (Finite (?x ! 1)) (Finite 0))
                                    (fsub exact (Finite 2) (Finite 0));
                  exponent = fsub exact (fquot exact (Finite 1) tau)
                                        (fquot exact (Finite 1) (fsub exact (Finite 1) tau))
              in y ! 1 = (if dle (fmaxexp exact) exponent then Finite 0
                          else fadd exact (Finite 0)
                                 (fquot exact (fsub exact (Finite 1) (Finite 0))
                                              (fadd exact (Finite 1) (fexp exact exponent))))"
    by blast
  moreover have "\<not> dle (fmaxexp exact)
      (fsub exact
         (fquot exact (Finite 1)
            (fquot exact (fsub exact (Finite (?x ! 1)) (Finite 0)) (fsub exact (Finite 2) (Finite 0))))
         (fquot exact (Finite 1)
            (fsub exact (Finite 1)
               (fquot exact (fsub exact (Finite (?x ! 1)) (Finite 0))
                            (fsub exact (Finite 2) (Finite 0))))))"
    using maxexp_pos by (simp add: exact_simps)
  ultimately have f: "y ! 1
     = fadd exact (Finite 0)
         (fquot exact (fsub exact (Finite 1) (Finite 0))
            (fadd exact (Finite 1)
               (fexp exact
                  (fsub exact
                     (fquot exact (Finite 1)
                        (fquot exact (fsub exact (Finite (?x ! 1)) (Finite 0))
                                     (fsub exact (Finite 2) (Finite 0))))
                     (fquot exact (Finite 1)
                        (fsub exact (Finite 1)
                           (fquot exact (fsub exact (Finite (?x ! 1)) (Finite 0))
                                        (fsub exact (Finite 2) (Finite 0)))))))))"
    unfolding Let_def by simp
  have d: "fsub exact (Finite 2) (Finite 0) \<noteq> Finite 0 \<and>
   fquot exact (fsub exact (Finite (?x ! 1)) (Finite 0)) (fsub exact (Finite 2) (Finite 0))
     \<noteq> Finite 0 \<and>
   fsub exact (Finite 1)
     (fquot exact (fsub exact (Finite (?x ! 1)) (Finite 0)) (fsub exact (Finite 2) (Finite 0)))
     \<noteq> Finite 0"
    by (simp add: exact_simps)
  show ?thesis using s o d eval_fp_012 eval_fp_012_False f[unfolded y] by simp
qed

text \<open>
  C2 as stated fails. At the sample 1 of the grid \<open>[0, 1, 704]\<close> with \<open>x0 = 0\<close>, \<open>x1 = 704\<close>,
  \<open>y0 = 0\<close> and \<open>y1 = 1\<close> the exponent \<open>704 - 704/703\<close> is at least \<open>maxexp\<close>, about 702.69, and
  the output is \<open>y0 = 0\<close>; the formula gives \<open>1 / (1 + exp (704 - 704/703))\<close>, which is not 0.
  The arithmetic is exact here; in doubles the same sample gives 0.0 against a formula value
  of about \<open>4.9e-306\<close>, the exponential being below the largest double.
\<close>

theorem transition_function_clamp_counterexample:
  "sorted [0, 1, 704 :: real] \<and> (0 :: real) < 704 \<and> (704 :: real) \<le> [0, 1, 704] ! 2 \<and>
   transition_function_fp exact [0, 1, 704] 0 704 (Finite 0) (Finite 1) True
     = Inr (WithIndices_fp [Finite 0, Finite 0, Finite 1] 1 2) \<and>
   (0 :: real) < [0, 1, 704] ! 1 \<and> [0, 1, 704 :: real] ! 1 < 704 \<and>
   [Finite 0, Finite 0, Finite 1] ! 1
     \<noteq> fadd exact (Finite 0)
         (fquot exact (fsub exact (Finite 1) (Finite 0))
            (fadd exact (Finite 1)
               (fexp exact
                  (fsub exact
                     (fquot exact (Finite 1)
                        (fquot exact (fsub exact (Finite ([0, 1, 704] ! 1)) (Finite 0))
                                     (fsub exact (Finite 704) (Finite 0))))
                     (fquot exact (Finite 1)
                        (fsub exact (Finite 1)
                           (fquot exact (fsub exact (Finite ([0, 1, 704] ! 1)) (Finite 0))
                                        (fsub exact (Finite 704) (Finite 0))))))))) \<and>
   [Finite 0, Finite 0, Finite 1] ! 1
     \<noteq> Finite (0 + (1 - 0) / (1 + exp (1 / (([0, 1, 704] ! 1 - 0) / (704 - 0))
                                          - 1 / (1 - ([0, 1, 704] ! 1 - 0) / (704 - 0)))))"
proof -
  have "0 < 1 + exp e" for e :: real
    by (simp add: add_pos_pos)
  then have n: "(1 :: real) / (1 + exp e) \<noteq> 0" for e :: real
    by (simp add: less_imp_neq[THEN not_sym])
  show ?thesis using eval_fp_clamped n by (simp add: exact_simps)
qed

theorem transition_function_raises_witness:
  "sorted [1 / 2 ^ 1074, 10 ^ 10 :: real] \<and>
   (0 :: real) < [1 / 2 ^ 1074, 10 ^ 10] ! 0 \<and> [1 / 2 ^ 1074, 10 ^ 10 :: real] ! 0 < 10 ^ 10 \<and>
   fquot underflowing (fsub underflowing (Finite ([1 / 2 ^ 1074, 10 ^ 10] ! 0)) (Finite 0))
                      (fsub underflowing (Finite (10 ^ 10)) (Finite 0)) = Finite 0 \<and>
   transition_function_fp underflowing [1 / 2 ^ 1074, 10 ^ 10] 0 (10 ^ 10) (Finite 0) (Finite 1) True
     = Inl ZeroDivisionError \<and>
   transition_function_fp underflowing [1 / 2 ^ 1074, 10 ^ 10] 0 (10 ^ 10) (Finite 0) (Finite 1) False
     = Inl ZeroDivisionError"
proof -
  let ?x = "[1 / 2 ^ 1074, 10 ^ 10] :: real list"
  have s: "sorted ?x" by simp
  have q: "fquot underflowing (fsub underflowing (Finite (?x ! 0)) (Finite 0))
                      (fsub underflowing (Finite (10 ^ 10)) (Finite 0)) = Finite 0"
    by (simp add: underflowing_simps)
  have b: "(0 :: real) < ?x ! 0 \<and> ?x ! 0 < 10 ^ 10" by simp
  have z: "\<exists>k < length ?x. 0 < ?x ! k \<and> ?x ! k < 10 ^ 10 \<and>
        (fquot underflowing (fsub underflowing (Finite (?x ! k)) (Finite 0))
                            (fsub underflowing (Finite (10 ^ 10)) (Finite 0)) = Finite 0 \<or>
         fsub underflowing (Finite 1)
           (fquot underflowing (fsub underflowing (Finite (?x ! k)) (Finite 0))
                               (fsub underflowing (Finite (10 ^ 10)) (Finite 0))) = Finite 0)"
    using q b by (intro exI[of _ 0]) simp
  from transition_function_raises[OF s z, of "Finite 0" "Finite 1"] s q b
  show ?thesis by simp
qed

end
